theory Spec2Isabelle
  imports Complex_Main "HOL-Library.Word" "HOL-Library.Sublist"
begin

section \<open>JavaScript values\<close>

text \<open>
  The library computes with JavaScript numbers. They are modelled as reals: every
  number is finite, so \<open>NaN\<close> and \<open>Infinity\<close> are outside the model. Arithmetic is
  exact, except in \<open>parseSubtitles\<close>, where the result depends on the rounding of
  doubles: the division of the milliseconds by 1000 and the subtraction compared
  with \<open>0.1\<close> are rounded to the nearest double (section Doubles).
  \<open>Math.min\<close>, \<open>Math.max\<close> and the comparisons are \<open>min\<close>, \<open>max\<close> and
  \<open>\<le>\<close>, \<open><\<close> on reals; \<open>Math.floor\<close> is \<open>\<lfloor>_\<rfloor>\<close>.

  A property of the \<open>options\<close> object that may be missing is an \<open>option\<close>:
  \<open>None\<close> is \<open>undefined\<close>.
\<close>

type_synonym number = real

text \<open>\<open>a || d\<close> on a number that may be undefined: \<open>undefined\<close> and \<open>0\<close> are falsy.\<close>

definition orNum :: "number option \<Rightarrow> number \<Rightarrow> number" where
  "orNum a d = (case a of None \<Rightarrow> d | Some x \<Rightarrow> if x = 0 then d else x)"

text \<open>\<open>a || d\<close> on a string that may be undefined: \<open>undefined\<close> and \<open>''\<close> are falsy.\<close>

definition orStr :: "string option \<Rightarrow> string \<Rightarrow> string" where
  "orStr a d = (case a of None \<Rightarrow> d | Some s \<Rightarrow> if s = [] then d else s)"

text \<open>\<open>a !== undefined ? a : d\<close>\<close>

definition definedOr :: "'a option \<Rightarrow> 'a \<Rightarrow> 'a" where
  "definedOr a d = (case a of None \<Rightarrow> d | Some x \<Rightarrow> x)"

section \<open>Parameter resolution\<close>

text \<open>\<open>determineBorderRadius(specifiedRadius, halfWidth, halfHeight, videoWidth, videoHeight)\<close>\<close>

definition determineBorderRadius ::
  "number option \<Rightarrow> number \<Rightarrow> number \<Rightarrow> number \<Rightarrow> number \<Rightarrow> number" where
  "determineBorderRadius specifiedRadius halfWidth halfHeight videoWidth videoHeight =
     (case specifiedRadius of
        Some r \<Rightarrow>
          (let maxAllowedRadius = max 1 (min halfHeight halfWidth - 1)
           in if r > 0 then min r maxAllowedRadius else 0)
      | None \<Rightarrow>
          (let smallerDimension = min halfWidth halfHeight;
               videoScale = min videoWidth videoHeight / 1080;
               baseRadius = min (10 * videoScale) (smallerDimension / 4);
               maxAllowedRadius = max 1 (smallerDimension - 1)
           in min baseRadius maxAllowedRadius))"

text \<open>\<open>determineBottomMargin(specifiedMargin, videoHeight)\<close>\<close>

definition determineBottomMargin :: "number option \<Rightarrow> number \<Rightarrow> number" where
  "determineBottomMargin specifiedMargin videoHeight =
     (case specifiedMargin of
        Some m \<Rightarrow> m
      | None \<Rightarrow>
          (let baseMargin = of_int \<lfloor>videoHeight * 0.05\<rfloor>
           in max 60 (min baseMargin (of_int \<lfloor>videoHeight * 0.1\<rfloor>))))"

section \<open>Rounded rectangle drawing\<close>

text \<open>
  The drawing is a string of ASS drawing commands, each a letter followed by numbers.
  The model keeps the commands and their numbers: \<open>m x y\<close>, \<open>l x y\<close> and
  \<open>b x1 y1 x2 y2 x3 y3\<close>.
\<close>

datatype drawCmd =
    MoveTo number number
  | LineTo number number
  | Bezier number number number number number number

text \<open>
  The first two statements of \<open>generateRoundedRectDrawing\<close>: the radius the drawing
  really uses.
\<close>

definition drawingRadius :: "number \<Rightarrow> number \<Rightarrow> number \<Rightarrow> number" where
  "drawingRadius halfWidth halfHeight borderRadius =
     (let maxAllowedRadius = max 1 (min halfHeight halfWidth - 1)
      in if borderRadius > 0 then min borderRadius maxAllowedRadius else 0)"

definition generateRoundedRectDrawing :: "number \<Rightarrow> number \<Rightarrow> number \<Rightarrow> drawCmd list" where
  "generateRoundedRectDrawing halfWidth halfHeight borderRadius =
     (let effectiveBorderRadius = drawingRadius halfWidth halfHeight borderRadius
      in if effectiveBorderRadius > 0 then
           [MoveTo (- halfWidth + effectiveBorderRadius) (- halfHeight),
            LineTo (halfWidth - effectiveBorderRadius) (- halfHeight),
            Bezier halfWidth (- halfHeight)
                   halfWidth (- halfHeight + effectiveBorderRadius)
                   halfWidth (- halfHeight + effectiveBorderRadius),
            LineTo halfWidth (halfHeight - effectiveBorderRadius),
            Bezier halfWidth halfHeight
                   (halfWidth - effectiveBorderRadius) halfHeight
                   (halfWidth - effectiveBorderRadius) halfHeight,
            LineTo (- halfWidth + effectiveBorderRadius) halfHeight,
            Bezier (- halfWidth) halfHeight
                   (- halfWidth) (halfHeight - effectiveBorderRadius)
                   (- halfWidth) (halfHeight - effectiveBorderRadius),
            LineTo (- halfWidth) (- halfHeight + effectiveBorderRadius),
            Bezier (- halfWidth) (- halfHeight)
                   (- halfWidth + effectiveBorderRadius) (- halfHeight)
                   (- halfWidth + effectiveBorderRadius) (- halfHeight)]
         else
           [MoveTo (- halfWidth) (- halfHeight),
            LineTo halfWidth (- halfHeight),
            LineTo halfWidth halfHeight,
            LineTo (- halfWidth) halfHeight,
            LineTo (- halfWidth) (- halfHeight)])"

section \<open>Strings\<close>

text \<open>
  A JavaScript string is a sequence of UTF-16 code units, and a regular expression
  without the \<open>u\<close> flag matches code unit by code unit. Cue text, which may hold any
  script, is a list of 16-bit words. Text the program itself produces from ASCII
  (timestamps, script names) is a \<open>string\<close>, turned into code units by \<open>ascii\<close>
  where it is joined with cue text.
\<close>

type_synonym jsstring = "16 word list"

definition codeUnit :: "char \<Rightarrow> 16 word" where
  "codeUnit c = of_char c"

definition ascii :: "string \<Rightarrow> jsstring" where
  "ascii s = map codeUnit s"

definition backslash :: char where
  "backslash = CHR 0x5C"

text \<open>\<open>s.padStart(n, c)\<close>\<close>

definition padStart :: "nat \<Rightarrow> char \<Rightarrow> string \<Rightarrow> string" where
  "padStart n c s = replicate (n - length s) c @ s"

section \<open>Doubles\<close>

text \<open>
  A JavaScript number is an IEEE 754 double: zero, or an integer multiple of
  \<open>2 ^ (e - 52)\<close> where \<open>e\<close>, the binary exponent of the value, is \<open>-1022\<close> for the
  subnormal numbers. An operation on doubles gives the exact result rounded to the
  nearest double, a tie going to the even multiple. Results of magnitude \<open>2 ^ 1024\<close>
  and more, which JavaScript turns into \<open>Infinity\<close>, are outside the model.
\<close>

text \<open>The nearest integer, a tie going to the even one.\<close>

definition roundHalfEven :: "real \<Rightarrow> int" where
  "roundHalfEven y =
     (let f = \<lfloor>y\<rfloor>; r = y - of_int f
      in if r < 1 / 2 then f else if 1 / 2 < r then f + 1 else if even f then f else f + 1)"

definition pow2 :: "int \<Rightarrow> real" where
  "pow2 e = (if 0 \<le> e then 2 ^ nat e else 1 / 2 ^ nat (- e))"

text \<open>The double nearest to a real number.\<close>

definition toDouble :: "real \<Rightarrow> number" where
  "toDouble x =
     (if x = 0 then 0
      else
        (let e = max \<lfloor>log 2 \<bar>x\<bar>\<rfloor> (- 1022);
             ulp = pow2 (e - 52)
         in ulp * of_int (roundHalfEven (x / ulp))))"

text \<open>\<open>a - b\<close> and \<open>a / b\<close> on doubles, and the literal \<open>0.1\<close>.\<close>

definition jsSub :: "number \<Rightarrow> number \<Rightarrow> number" where
  "jsSub a b = toDouble (a - b)"

definition jsDiv :: "number \<Rightarrow> number \<Rightarrow> number" where
  "jsDiv a b = toDouble (a / b)"

definition tenth :: number where
  "tenth = toDouble (1 / 10)"

section \<open>Cues and timing\<close>

text \<open>
  The data of a cue as the \<open>subtitle\<close> library returns it: \<open>start\<close> and \<open>end\<close> in
  milliseconds, and the text, a string.
\<close>

record cue =
  cue_start :: number
  cue_end :: number
  cue_text :: jsstring

text \<open>A subtitle as \<open>parseSubtitles\<close> builds it: times in seconds.\<close>

record subtitle =
  sub_index :: nat
  sub_start :: number
  sub_end :: number
  sub_text :: jsstring

text \<open>\<open>text.replace(/\n/g, '\\N')\<close>: every line feed becomes a backslash and \<open>N\<close>.\<close>

fun replaceNewlines :: "jsstring \<Rightarrow> jsstring" where
  "replaceNewlines [] = []"
| "replaceNewlines (c # cs) =
     (if c = 0x0A then codeUnit backslash # codeUnit (CHR ''N'') # replaceNewlines cs
      else c # replaceNewlines cs)"

text \<open>
  The function mapped over the parsed cues:
  \<^verbatim>\<open>(sub, index) => ({ index: index + 1, start: sub.start / 1000,
    end: sub.end / 1000, text: text.replace(/\n/g, '\\N') })\<close>
\<close>

definition toInternal :: "nat \<Rightarrow> cue \<Rightarrow> subtitle" where
  "toInternal index sub =
     \<lparr>sub_index = index + 1,
      sub_start = jsDiv (cue_start sub) 1000,
      sub_end = jsDiv (cue_end sub) 1000,
      sub_text = replaceNewlines (cue_text sub)\<rparr>"

text \<open>
  The loop of \<open>parseSubtitles\<close> that fixes the timing, from index \<open>i\<close> on:
  \<^verbatim>\<open>for (let i = 0; i < subtitles.length - 1; i++) {
    if (nextSub.start - currentSub.end < 0.1) currentSub.end = nextSub.start; }\<close>
  The subtraction is the one of doubles and \<open>0.1\<close> is the double of that literal.
  \<open>subtitles.length - 1\<close> is \<open>-1\<close> on an empty array, so the bound is computed on
  integers.
\<close>

function fixTimingFrom :: "nat \<Rightarrow> subtitle list \<Rightarrow> subtitle list" where
  "fixTimingFrom i subtitles =
     (if int i < int (length subtitles) - 1 then
        fixTimingFrom (i + 1)
          (if jsSub (sub_start (subtitles ! (i + 1))) (sub_end (subtitles ! i)) < tenth
           then subtitles[i := (subtitles ! i)\<lparr>sub_end := sub_start (subtitles ! (i + 1))\<rparr>]
           else subtitles)
      else subtitles)"
  by pat_completeness auto
termination
  by (relation "measure (\<lambda>(i, subtitles). length subtitles - i)") auto

declare fixTimingFrom.simps [simp del]

definition fixTiming :: "subtitle list \<Rightarrow> subtitle list" where
  "fixTiming subtitles = fixTimingFrom 0 subtitles"

text \<open>
  \<open>parseSubtitles\<close>, from the cues the \<open>subtitle\<close> library found in the file to the
  subtitles it returns. Reading and decoding the file and the library's parser are not
  modelled.
\<close>

definition parseSubtitles :: "cue list \<Rightarrow> subtitle list" where
  "parseSubtitles parsedSubtitles =
     fixTiming (map (\<lambda>(index, sub). toInternal index sub) (enumerate 0 parsedSubtitles))"

text \<open>
  One pass of the loop on a subtitle and its successor: the end moves to the
  successor's start when the test \<open>nextSub.start - currentSub.end < 0.1\<close> holds.
\<close>

definition closeGap :: "subtitle \<Rightarrow> subtitle \<Rightarrow> subtitle" where
  "closeGap currentSub nextSub =
     (if jsSub (sub_start nextSub) (sub_end currentSub) < tenth
      then currentSub\<lparr>sub_end := sub_start nextSub\<rparr> else currentSub)"

section \<open>Timestamps\<close>

text \<open>
  \<open>x % y\<close> on numbers: the remainder has the sign of the dividend, the quotient is
  truncated towards zero.
\<close>

definition jsRem :: "number \<Rightarrow> number \<Rightarrow> number" where
  "jsRem x y = x - y * of_int (if x / y < 0 then \<lceil>x / y\<rceil> else \<lfloor>x / y\<rfloor>)"

definition digitChar :: "nat \<Rightarrow> char" where
  "digitChar d = ''0123456789'' ! d"

text \<open>The decimal digits of a natural number, and of an integer (\<open>toString\<close>).\<close>

fun showNat :: "nat \<Rightarrow> string" where
  "showNat n = (if n < 10 then [digitChar n] else showNat (n div 10) @ [digitChar (n mod 10)])"

declare showNat.simps [simp del]

definition showInt :: "int \<Rightarrow> string" where
  "showInt i = (if i < 0 then CHR ''-'' # showNat (nat (- i)) else showNat (nat i))"

text \<open>
  \<open>x.toFixed(2)\<close>: with \<open>n\<close> the integer for which \<open>n / 100\<close> is nearest to the
  magnitude of \<open>x\<close> (the larger one of two), the digits of \<open>n\<close> with a point before the
  last two, after a minus sign when \<open>x < 0\<close>.
\<close>

definition toFixed2 :: "number \<Rightarrow> string" where
  "toFixed2 x =
     (let n = nat \<lfloor>\<bar>x\<bar> * 100 + 1 / 2\<rfloor>
      in (if x < 0 then ''-'' else []) @
         showNat (n div 100) @ ''.'' @ padStart 2 (CHR ''0'') (showNat (n mod 100)))"

text \<open>\<open>formatAssTime(seconds)\<close>\<close>

definition formatAssTime :: "number \<Rightarrow> string" where
  "formatAssTime seconds =
     (let hours = \<lfloor>seconds / 3600\<rfloor>;
          minutes = \<lfloor>jsRem seconds 3600 / 60\<rfloor>;
          secs = jsRem seconds 60
      in showInt hours @ '':'' @ padStart 2 (CHR ''0'') (showInt minutes) @ '':'' @
         padStart 5 (CHR ''0'') (toFixed2 secs))"

section \<open>Script detection\<close>

text \<open>The three character classes of \<open>detectScript\<close>.\<close>

definition isCjkUnit :: "16 word \<Rightarrow> bool" where
  "isCjkUnit c = ((0x3000 \<le> c \<and> c \<le> 0x9fff) \<or> (0xf900 \<le> c \<and> c \<le> 0xfaff))"

definition isArabicUnit :: "16 word \<Rightarrow> bool" where
  "isArabicUnit c = (0x0600 \<le> c \<and> c \<le> 0x06FF)"

definition isHebrewUnit :: "16 word \<Rightarrow> bool" where
  "isHebrewUnit c = (0x0590 \<le> c \<and> c \<le> 0x05FF)"

text \<open>\<open>detectScript(text)\<close>: \<open>/[...]/.test(text)\<close> holds when some code unit is in the class.\<close>

definition detectScript :: "jsstring \<Rightarrow> string" where
  "detectScript text =
     (if list_ex isCjkUnit text then ''cjk''
      else if list_ex isArabicUnit text then ''arabic''
      else if list_ex isHebrewUnit text then ''hebrew''
      else ''latin'')"

text \<open>\<open>isRtlScript(script)\<close>\<close>

definition isRtlScript :: "string \<Rightarrow> bool" where
  "isRtlScript script = (script \<in> set [''arabic'', ''hebrew''])"

section \<open>Text dimensions\<close>

record dimensions =
  dim_width :: number
  dim_height :: number

text \<open>The characters \<open>.\<close> does not match: line feed, carriage return, U+2028, U+2029.\<close>

definition isLineTerminator :: "16 word \<Rightarrow> bool" where
  "isLineTerminator c = (c = 0x000A \<or> c = 0x000D \<or> c = 0x2028 \<or> c = 0x2029)"

text \<open>
  What \<open>.*?\}\<close> matches after a \<open>{\<close>: the shortest run of characters other than line
  terminators that is followed by \<open>}\<close>. The result is the text after that \<open>}\<close>, or
  \<open>None\<close> when there is no match.
\<close>

fun closeTag :: "jsstring \<Rightarrow> jsstring option" where
  "closeTag [] = None"
| "closeTag (c # cs) =
     (if c = codeUnit (CHR ''}'') then Some cs
      else if isLineTerminator c then None
      else closeTag cs)"

text \<open>\<open>text.replace(/\{.*?\}/g, '')\<close>: every match, from left to right, is removed.\<close>

function removeTags :: "jsstring \<Rightarrow> jsstring" where
  "removeTags [] = []"
| "removeTags (c # cs) =
     (if c = codeUnit (CHR ''{'') then
        (case closeTag cs of
           Some rest \<Rightarrow> removeTags rest
         | None \<Rightarrow> c # removeTags cs)
      else c # removeTags cs)"
  by pat_completeness auto
termination
proof (relation "measure length")
  show "wf (measure length)" by simp
next
  fix c :: "16 word" and cs rest :: jsstring
  assume "closeTag cs = Some rest"
  moreover have "\<And>r. closeTag xs = Some r \<Longrightarrow> length r < length xs" for xs
    by (induction xs) (auto split: if_splits)
  ultimately have "length rest < length cs" by blast
  then show "(rest, c # cs) \<in> measure length" by simp
qed simp_all

text \<open>\<open>s.replace(/\\N/g, ' ')\<close>: every backslash followed by \<open>N\<close> becomes a space.\<close>

fun replaceBreaks :: "jsstring \<Rightarrow> jsstring" where
  "replaceBreaks (a # b # rest) =
     (if a = codeUnit backslash \<and> b = codeUnit (CHR ''N'')
      then codeUnit (CHR '' '') # replaceBreaks rest
      else a # replaceBreaks (b # rest))"
| "replaceBreaks cs = cs"

text \<open>\<open>(text.match(/\\N/g) || []).length\<close>: the number of matches.\<close>

fun countBreaks :: "jsstring \<Rightarrow> nat" where
  "countBreaks (a # b # rest) =
     (if a = codeUnit backslash \<and> b = codeUnit (CHR ''N'')
      then 1 + countBreaks rest
      else countBreaks (b # rest))"
| "countBreaks cs = 0"

text \<open>\<open>calculateTextDimensions(text, fontName, fontSize, videoWidth)\<close>\<close>

definition calculateTextDimensions :: "jsstring \<Rightarrow> string \<Rightarrow> number \<Rightarrow> number \<Rightarrow> dimensions" where
  "calculateTextDimensions text fontName fontSize videoWidth =
     (let cleanText = replaceBreaks (removeTags text);
          charWidth = fontSize * 0.6;
          estimatedWidth = min (of_nat (length cleanText) * charWidth) (videoWidth * 0.9);
          lineCount = countBreaks text + 1;
          lineHeight = fontSize * 1.2;
          estimatedHeight = lineHeight * of_nat lineCount
      in \<lparr>dim_width = estimatedWidth, dim_height = estimatedHeight\<rparr>)"

section \<open>Configuration\<close>

text \<open>
  The \<open>options\<close> object of \<open>createRoundedAss\<close>: every property may be missing.
  (\<open>verbose\<close> only drives logging and is left out.)
\<close>

record options =
  opt_font :: "string option"
  opt_fontSize :: "number option"
  opt_textColor :: "string option"
  opt_bgColor :: "string option"
  opt_opacity :: "number option"
  opt_bgAlpha :: "number option"
  opt_paddingX :: "number option"
  opt_paddingY :: "number option"
  opt_radius :: "number option"
  opt_widthRatio :: "number option"
  opt_marginBottom :: "number option"
  opt_subtitleFormat :: "string option"
  opt_minWidthRatio :: "number option"
  opt_maxWidthRatio :: "number option"
  opt_lineSpacing :: "number option"
  opt_widthCorrection :: "number option"
  opt_tightFit :: "bool option"
  opt_disableMinWidth :: "bool option"
  opt_useAssMeasure :: "bool option"

text \<open>\<open>const config = { font: options.font || 'Arial', ... }\<close>\<close>

record config =
  cfg_font :: string
  cfg_fontSize :: number
  cfg_textColor :: string
  cfg_bgColor :: string
  cfg_bgAlpha :: number
  cfg_paddingX :: number
  cfg_paddingY :: number
  cfg_radius :: "number option"
  cfg_widthRatio :: number
  cfg_marginBottom :: "number option"
  cfg_subtitleFormat :: string

definition resolveConfig :: "options \<Rightarrow> config" where
  "resolveConfig options =
     \<lparr>cfg_font = orStr (opt_font options) ''Arial'',
      cfg_fontSize = orNum (opt_fontSize options) 48,
      cfg_textColor = orStr (opt_textColor options) ''FFFFFF'',
      cfg_bgColor = orStr (opt_bgColor options) ''000000'',
      cfg_bgAlpha = orNum (opt_opacity options) 0,
      cfg_paddingX = orNum (opt_paddingX options) 20,
      cfg_paddingY = orNum (opt_paddingY options) 10,
      cfg_radius = opt_radius options,
      cfg_widthRatio = orNum (opt_widthRatio options) 1.0,
      cfg_marginBottom = opt_marginBottom options,
      cfg_subtitleFormat = orStr (opt_subtitleFormat options) ''srt''\<rparr>"

text \<open>
  \<open>const extendedConfig = { ...config, bgAlpha: options.bgAlpha || config.bgAlpha || 80, ... }\<close>:
  the properties of \<open>config\<close>, \<open>bgAlpha\<close> replaced, and the additional ones.
\<close>

record extendedConfig = config +
  cfg_paddingV :: number
  cfg_paddingH :: number
  cfg_minWidthRatio :: number
  cfg_maxWidthRatio :: number
  cfg_lineSpacing :: number
  cfg_fontName :: string
  cfg_widthCorrection :: number
  cfg_tightFit :: bool
  cfg_disableMinWidth :: bool
  cfg_useAssMeasure :: bool

definition extendConfig :: "options \<Rightarrow> config \<Rightarrow> extendedConfig" where
  "extendConfig options config =
     \<lparr>cfg_font = cfg_font config,
      cfg_fontSize = cfg_fontSize config,
      cfg_textColor = cfg_textColor config,
      cfg_bgColor = cfg_bgColor config,
      cfg_bgAlpha = orNum (Some (orNum (opt_bgAlpha options) (cfg_bgAlpha config))) 80,
      cfg_paddingX = cfg_paddingX config,
      cfg_paddingY = cfg_paddingY config,
      cfg_radius = cfg_radius config,
      cfg_widthRatio = cfg_widthRatio config,
      cfg_marginBottom = cfg_marginBottom config,
      cfg_subtitleFormat = cfg_subtitleFormat config,
      cfg_paddingV = cfg_paddingY config,
      cfg_paddingH = cfg_paddingX config,
      cfg_minWidthRatio = orNum (opt_minWidthRatio options) 0.0,
      cfg_maxWidthRatio = orNum (opt_maxWidthRatio options) 1,
      cfg_lineSpacing = orNum (opt_lineSpacing options) 1.2,
      cfg_fontName = cfg_font config,
      cfg_widthCorrection = orNum (opt_widthCorrection options) 0.95,
      cfg_tightFit = definedOr (opt_tightFit options) True,
      cfg_disableMinWidth = definedOr (opt_disableMinWidth options) True,
      cfg_useAssMeasure = definedOr (opt_useAssMeasure options) True\<rparr>"

text \<open>
  The font of the document: chosen from the predominant script when \<open>options.font\<close> is
  falsy (undefined or empty). \<open>win32\<close> stands for \<open>process.platform === 'win32'\<close>.
\<close>

definition chooseFont :: "bool \<Rightarrow> options \<Rightarrow> extendedConfig \<Rightarrow> string \<Rightarrow> string" where
  "chooseFont win32 options extendedConfig predominantScript =
     (if (case opt_font options of None \<Rightarrow> True | Some f \<Rightarrow> f = []) then
        (if predominantScript = ''cjk'' then
           (if win32 then ''Microsoft YaHei'' else ''Noto Sans CJK SC'')
         else if predominantScript = ''arabic'' then
           (if win32 then ''Traditional Arabic'' else ''Noto Sans Arabic'')
         else if predominantScript = ''hebrew'' then
           (if win32 then ''David'' else ''Noto Sans Hebrew'')
         else cfg_fontName extendedConfig)
      else cfg_fontName extendedConfig)"

section \<open>Box geometry\<close>

text \<open>
  The width of a cue's box, from the loop body of \<open>createRoundedAss\<close>: padding (with the
  case of a padding of exactly 0), the limit of 98% of the video width, the minimum
  width when it is enabled, the maximum width.
\<close>

definition boxWidthOf :: "extendedConfig \<Rightarrow> number \<Rightarrow> number \<Rightarrow> number \<Rightarrow> number \<Rightarrow> number" where
  "boxWidthOf extendedConfig textWidth videoWidth minWidth maxWidth =
     (let boxWidth0 =
            (if cfg_paddingH extendedConfig = 0 then textWidth + 2
             else textWidth + cfg_paddingH extendedConfig * 2);
          boxWidth1 = min boxWidth0 (videoWidth * 0.98);
          boxWidth2 =
            (if \<not> cfg_disableMinWidth extendedConfig then max boxWidth1 minWidth
             else boxWidth1)
      in min boxWidth2 maxWidth)"

definition boxHeightOf :: "extendedConfig \<Rightarrow> number \<Rightarrow> number" where
  "boxHeightOf extendedConfig textHeight = textHeight + cfg_paddingV extendedConfig * 2"

section \<open>Events\<close>

text \<open>The marker put before right-to-left text: the characters \<open>\u+F220\<close>.\<close>

definition rtlMarker :: jsstring where
  "rtlMarker = ascii (backslash # ''u+F220'')"

definition currentRtlMarker :: "string \<Rightarrow> jsstring" where
  "currentRtlMarker textScript = (if isRtlScript textScript then rtlMarker else [])"

text \<open>
  The head of the text event, up to the closing brace of its override block:
  \<^verbatim>\<open>"Dialogue: " + `1,${startTime},${endTime},Default,,0,0,0,,{\an5\pos(${videoWidth / 2},${yPos})\bord0\shad0}`\<close>
  How JavaScript writes a number in a template is not modelled: \<open>numToString\<close> is a
  parameter.
\<close>

definition textEventHead :: "(number \<Rightarrow> string) \<Rightarrow> string \<Rightarrow> string \<Rightarrow> number \<Rightarrow> number \<Rightarrow> string" where
  "textEventHead numToString startTime endTime videoWidth yPos =
     ''Dialogue: 1,'' @ startTime @ '','' @ endTime @ '',Default,,0,0,0,,{'' @
     backslash # ''an5'' @ backslash # ''pos('' @ numToString (videoWidth / 2) @ '','' @
     numToString yPos @ '')'' @ backslash # ''bord0'' @ backslash # ''shad0}''"

text \<open>
  The text event of a cue, as it is pushed to \<open>events\<close>: the head, the marker of the
  cue's own script, the text.
\<close>

definition textEvent :: "(number \<Rightarrow> string) \<Rightarrow> string \<Rightarrow> string \<Rightarrow> number \<Rightarrow> number \<Rightarrow> jsstring \<Rightarrow> jsstring" where
  "textEvent numToString startTime endTime videoWidth yPos subText =
     (let textScript = detectScript subText
      in ascii (textEventHead numToString startTime endTime videoWidth yPos) @
         currentRtlMarker textScript @ subText)"

text \<open>
  Whether a string holds a backslash directly followed by \<open>u\<close>, as the marker
  begins. The text event's head does not.
\<close>

fun backslashU :: "jsstring \<Rightarrow> bool" where
  "backslashU (x # y # zs) =
     ((x = codeUnit backslash \<and> y = codeUnit (CHR ''u'')) \<or> backslashU (y # zs))"
| "backslashU zs = False"

text \<open>
  What one pass of the loop over the subtitles computes: the times, the position, the
  text size (measured or estimated), the box, the radius, the background alpha, the
  drawing of the background event and the text event.
\<close>

record cueEvents =
  ev_startTime :: string
  ev_endTime :: string
  ev_yPos :: number
  ev_measured :: bool
  ev_textWidth :: number
  ev_textHeight :: number
  ev_boxWidth :: number
  ev_boxHeight :: number
  ev_borderRadius :: number
  ev_bgAlpha :: number
  ev_drawing :: "drawCmd list"
  ev_text :: jsstring

definition cueBody ::
  "(number \<Rightarrow> string) \<Rightarrow> options \<Rightarrow> extendedConfig \<Rightarrow> string \<Rightarrow> number \<Rightarrow> number \<Rightarrow> number \<Rightarrow>
   number \<Rightarrow> number \<Rightarrow> number \<Rightarrow> dimensions list option \<Rightarrow> nat \<Rightarrow> subtitle \<Rightarrow> cueEvents" where
  "cueBody numToString options extendedConfig fontName fontSize videoWidth videoHeight
     marginBottom minWidth maxWidth subtitleDimensions idx sub =
     (let startTime = formatAssTime (sub_start sub);
          endTime = formatAssTime (sub_end sub);
          yPos = videoHeight - marginBottom;
          measured =
            (case subtitleDimensions of None \<Rightarrow> False | Some ds \<Rightarrow> idx < length ds);
          estimation = calculateTextDimensions (sub_text sub) fontName fontSize videoWidth;
          textSize =
            (case subtitleDimensions of
               None \<Rightarrow> estimation
             | Some ds \<Rightarrow> if idx < length ds then ds ! idx else estimation);
          textWidth = dim_width textSize;
          textHeight = dim_height textSize;
          boxWidth = boxWidthOf extendedConfig textWidth videoWidth minWidth maxWidth;
          boxHeight = boxHeightOf extendedConfig textHeight;
          halfWidth = boxWidth / 2;
          halfHeight = boxHeight / 2;
          effectiveBorderRadius =
            determineBorderRadius (opt_radius options) halfWidth halfHeight videoWidth videoHeight
      in \<lparr>ev_startTime = startTime,
          ev_endTime = endTime,
          ev_yPos = yPos,
          ev_measured = measured,
          ev_textWidth = textWidth,
          ev_textHeight = textHeight,
          ev_boxWidth = boxWidth,
          ev_boxHeight = boxHeight,
          ev_borderRadius = effectiveBorderRadius,
          ev_bgAlpha = cfg_bgAlpha extendedConfig,
          ev_drawing = generateRoundedRectDrawing halfWidth halfHeight effectiveBorderRadius,
          ev_text = textEvent numToString startTime endTime videoWidth yPos (sub_text sub)\<rparr>)"

text \<open>\<open>subtitles.map(sub => sub.text).join(' ')\<close>\<close>

fun joinTexts :: "jsstring list \<Rightarrow> jsstring" where
  "joinTexts [] = []"
| "joinTexts [t] = t"
| "joinTexts (t # ts) = t @ codeUnit (CHR '' '') # joinTexts ts"

datatype error = NoSubtitlesFound

text \<open>
  \<open>createRoundedAss\<close>, from the parsed subtitles to the events, one \<open>cueEvents\<close> per
  subtitle in order. What comes from outside is a parameter: \<open>videoDimensions\<close> is
  what \<open>getVideoDimensions\<close> found (\<open>None\<close> when there is no video or the probe
  failed), \<open>measurement\<close> is what \<open>measureSubtitleDimensions\<close> returned (\<open>None\<close> for
  \<open>null\<close>). Reading and writing files, logging and the header are not modelled.
\<close>

definition createRoundedAss ::
  "(number \<Rightarrow> string) \<Rightarrow> bool \<Rightarrow> options \<Rightarrow> (number \<times> number) option \<Rightarrow> dimensions list option \<Rightarrow>
   subtitle list \<Rightarrow> error + cueEvents list" where
  "createRoundedAss numToString win32 options videoDimensions measurement subtitles =
     (let config = resolveConfig options
      in if length subtitles = 0 then Inl NoSubtitlesFound
         else
           (let videoWidth = (case videoDimensions of None \<Rightarrow> 1920 | Some d \<Rightarrow> fst d);
                videoHeight = (case videoDimensions of None \<Rightarrow> 1080 | Some d \<Rightarrow> snd d);
                extendedConfig = extendConfig options config;
                fontSize = orNum (Some (cfg_fontSize config)) (of_int \<lfloor>videoHeight / 20\<rfloor>);
                minWidth =
                  (if cfg_disableMinWidth extendedConfig then 0
                   else videoWidth * cfg_minWidthRatio extendedConfig);
                maxWidth = videoWidth * cfg_maxWidthRatio extendedConfig;
                allText = joinTexts (map sub_text subtitles);
                predominantScript = detectScript allText;
                fontName = chooseFont win32 options extendedConfig predominantScript;
                marginBottom = determineBottomMargin (opt_marginBottom options) videoHeight;
                subtitleDimensions =
                  (if cfg_useAssMeasure extendedConfig then measurement else None)
            in Inr (map (\<lambda>idx. cueBody numToString options extendedConfig fontName fontSize
                                   videoWidth videoHeight marginBottom minWidth maxWidth
                                   subtitleDimensions idx (subtitles ! idx))
                     [0..<length subtitles])))"

text \<open>The default of the parameter: \<open>options = {}\<close>.\<close>

definition noOptions :: options where
  "noOptions =
     \<lparr>opt_font = None, opt_fontSize = None, opt_textColor = None, opt_bgColor = None,
      opt_opacity = None, opt_bgAlpha = None, opt_paddingX = None, opt_paddingY = None,
      opt_radius = None, opt_widthRatio = None, opt_marginBottom = None,
      opt_subtitleFormat = None, opt_minWidthRatio = None, opt_maxWidthRatio = None,
      opt_lineSpacing = None, opt_widthCorrection = None, opt_tightFit = None,
      opt_disableMinWidth = None, opt_useAssMeasure = None\<rparr>"

section \<open>The events of a document\<close>

lemma createRoundedAss_empty:
  "createRoundedAss nts w options vd m [] = Inl NoSubtitlesFound"
  by (simp add: createRoundedAss_def)

lemma createRoundedAss_length:
  "createRoundedAss nts w options vd m subtitles = Inr evs \<Longrightarrow> length evs = length subtitles"
  by (auto simp: createRoundedAss_def Let_def split: if_splits)

lemma createRoundedAss_returns:
  "subtitles \<noteq> [] \<Longrightarrow> \<exists>evs. createRoundedAss nts w options vd m subtitles = Inr evs"
  by (simp add: createRoundedAss_def Let_def)

lemma event_bgAlpha:
  assumes "createRoundedAss nts w options vd m subtitles = Inr evs" and "idx < length subtitles"
  shows "ev_bgAlpha (evs ! idx) = cfg_bgAlpha (extendConfig options (resolveConfig options))"
  using assms by (auto simp: createRoundedAss_def cueBody_def Let_def split: if_splits)

lemma event_yPos:
  assumes "createRoundedAss nts w options vd m subtitles = Inr evs" and "idx < length subtitles"
  shows "ev_yPos (evs ! idx) =
     (case vd of None \<Rightarrow> 1080 | Some d \<Rightarrow> snd d) -
     determineBottomMargin (opt_marginBottom options) (case vd of None \<Rightarrow> 1080 | Some d \<Rightarrow> snd d)"
  using assms by (auto simp: createRoundedAss_def cueBody_def Let_def split: if_splits)

lemma event_boxWidth:
  assumes "createRoundedAss nts w options vd m subtitles = Inr evs" and "idx < length subtitles"
  shows "ev_boxWidth (evs ! idx) =
     boxWidthOf (extendConfig options (resolveConfig options)) (ev_textWidth (evs ! idx))
       (case vd of None \<Rightarrow> 1920 | Some d \<Rightarrow> fst d)
       (if cfg_disableMinWidth (extendConfig options (resolveConfig options)) then 0
        else (case vd of None \<Rightarrow> 1920 | Some d \<Rightarrow> fst d) *
             cfg_minWidthRatio (extendConfig options (resolveConfig options)))
       ((case vd of None \<Rightarrow> 1920 | Some d \<Rightarrow> fst d) *
        cfg_maxWidthRatio (extendConfig options (resolveConfig options)))"
  using assms by (auto simp: createRoundedAss_def cueBody_def Let_def split: if_splits)

lemma event_text:
  assumes "createRoundedAss nts w options vd m subtitles = Inr evs" and "idx < length subtitles"
  shows "ev_text (evs ! idx) =
     textEvent nts (formatAssTime (sub_start (subtitles ! idx))) (formatAssTime (sub_end (subtitles ! idx)))
       (case vd of None \<Rightarrow> 1920 | Some d \<Rightarrow> fst d)
       (ev_yPos (evs ! idx)) (sub_text (subtitles ! idx))"
  using assms by (auto simp: createRoundedAss_def cueBody_def Let_def split: if_splits)

lemma event_measured:
  assumes "createRoundedAss nts w options vd (Some ds) subtitles = Inr evs" and "idx < length subtitles"
    and "idx < length ds" and "opt_useAssMeasure options = None"
  shows "ev_textWidth (evs ! idx) = dim_width (ds ! idx)"
  using assms by (auto simp: createRoundedAss_def cueBody_def extendConfig_def definedOr_def Let_def split: if_splits)

lemma event_boxHeight:
  assumes "createRoundedAss nts w options vd m subtitles = Inr evs" and "idx < length subtitles"
  shows "ev_boxHeight (evs ! idx) =
     boxHeightOf (extendConfig options (resolveConfig options)) (ev_textHeight (evs ! idx))"
  using assms by (auto simp: createRoundedAss_def cueBody_def Let_def split: if_splits)

lemma event_measured_height:
  assumes "createRoundedAss nts w options vd (Some ds) subtitles = Inr evs" and "idx < length subtitles"
    and "idx < length ds" and "opt_useAssMeasure options = None"
  shows "ev_textHeight (evs ! idx) = dim_height (ds ! idx)"
  using assms by (auto simp: createRoundedAss_def cueBody_def extendConfig_def definedOr_def Let_def split: if_splits)

lemma event_drawing:
  assumes "createRoundedAss nts w options vd m subtitles = Inr evs" and "idx < length subtitles"
  shows "ev_drawing (evs ! idx) =
     generateRoundedRectDrawing (ev_boxWidth (evs ! idx) / 2) (ev_boxHeight (evs ! idx) / 2)
       (ev_borderRadius (evs ! idx))"
    and "ev_borderRadius (evs ! idx) =
     determineBorderRadius (opt_radius options)
       (ev_boxWidth (evs ! idx) / 2) (ev_boxHeight (evs ! idx) / 2)
       (case vd of None \<Rightarrow> 1920 | Some d \<Rightarrow> fst d)
       (case vd of None \<Rightarrow> 1080 | Some d \<Rightarrow> snd d)"
  using assms by (auto simp: createRoundedAss_def cueBody_def Let_def split: if_splits)

section \<open>Box width and padding\<close>

lemma boxWidthOf_closed:
  "boxWidthOf ec tw vw minW maxW =
     min (if cfg_disableMinWidth ec
          then min (if cfg_paddingH ec = 0 then tw + 2 else tw + 2 * cfg_paddingH ec) (vw * 0.98)
          else max (min (if cfg_paddingH ec = 0 then tw + 2 else tw + 2 * cfg_paddingH ec) (vw * 0.98)) minW)
         maxW"
  by (simp add: boxWidthOf_def Let_def mult.commute)

lemma paddingH_nonzero: "cfg_paddingH (extendConfig options (resolveConfig options)) \<noteq> 0"
  by (simp add: extendConfig_def resolveConfig_def orNum_def split: option.splits)

lemma bgAlpha_nonzero: "cfg_bgAlpha (extendConfig options (resolveConfig options)) \<noteq> 0"
  by (simp add: extendConfig_def resolveConfig_def orNum_def split: option.splits)

text \<open>
  The width of a cue's box, on the resolved configuration: \<open>textWidth + 2 * paddingH\<close>,
  or \<open>textWidth + 2\<close> when the resolved horizontal padding is exactly 0; it is then
  limited to \<open>videoWidth * 0.98\<close>, raised to the minimum width when that is enabled,
  and limited to the maximum width (\<open>videoWidth * maxWidthRatio\<close> in
  \<open>createRoundedAss\<close>, for every event). The minimum width is disabled unless the
  options say otherwise. A resolved padding of 0 and a text width of 50 on a 1920
  wide canvas would give 52.
\<close>

theorem box_width:
  "boxWidthOf ec tw vw minW maxW =
     min (if cfg_disableMinWidth ec
          then min (if cfg_paddingH ec = 0 then tw + 2 else tw + 2 * cfg_paddingH ec) (vw * 0.98)
          else max (min (if cfg_paddingH ec = 0 then tw + 2 else tw + 2 * cfg_paddingH ec) (vw * 0.98)) minW)
         maxW \<and>
   boxWidthOf ec tw vw minW maxW \<le> maxW \<and>
   boxWidthOf (ec\<lparr>cfg_disableMinWidth := True\<rparr>) tw vw minW maxW \<le> vw * 0.98 \<and>
   cfg_disableMinWidth (extendConfig (options\<lparr>opt_disableMinWidth := None\<rparr>) c) = True \<and>
   boxWidthOf (ec\<lparr>cfg_paddingH := 0, cfg_disableMinWidth := True\<rparr>) 50 1920 0 (1920 * 1) = 52 \<and>
   (\<forall>evs idx. createRoundedAss nts w options vd m subtitles = Inr evs \<and> idx < length subtitles \<longrightarrow>
      ev_boxWidth (evs ! idx) =
        boxWidthOf (extendConfig options (resolveConfig options)) (ev_textWidth (evs ! idx))
          (case vd of None \<Rightarrow> 1920 | Some d \<Rightarrow> fst d)
          (if cfg_disableMinWidth (extendConfig options (resolveConfig options)) then 0
           else (case vd of None \<Rightarrow> 1920 | Some d \<Rightarrow> fst d) *
                cfg_minWidthRatio (extendConfig options (resolveConfig options)))
          ((case vd of None \<Rightarrow> 1920 | Some d \<Rightarrow> fst d) *
           cfg_maxWidthRatio (extendConfig options (resolveConfig options))))"
proof (intro conjI allI impI)
  show "boxWidthOf ec tw vw minW maxW =
     min (if cfg_disableMinWidth ec
          then min (if cfg_paddingH ec = 0 then tw + 2 else tw + 2 * cfg_paddingH ec) (vw * 0.98)
          else max (min (if cfg_paddingH ec = 0 then tw + 2 else tw + 2 * cfg_paddingH ec) (vw * 0.98)) minW)
         maxW"
    by (rule boxWidthOf_closed)
  show "boxWidthOf ec tw vw minW maxW \<le> maxW"
    by (simp add: boxWidthOf_def Let_def)
  show "boxWidthOf (ec\<lparr>cfg_disableMinWidth := True\<rparr>) tw vw minW maxW \<le> vw * 0.98"
    by (simp add: boxWidthOf_def Let_def min.coboundedI1)
  show "cfg_disableMinWidth (extendConfig (options\<lparr>opt_disableMinWidth := None\<rparr>) c) = True"
    by (simp add: extendConfig_def definedOr_def)
  show "boxWidthOf (ec\<lparr>cfg_paddingH := 0, cfg_disableMinWidth := True\<rparr>) 50 1920 0 (1920 * 1) = 52"
    by (simp add: boxWidthOf_def Let_def)
  show "ev_boxWidth (evs ! idx) =
        boxWidthOf (extendConfig options (resolveConfig options)) (ev_textWidth (evs ! idx))
          (case vd of None \<Rightarrow> 1920 | Some d \<Rightarrow> fst d)
          (if cfg_disableMinWidth (extendConfig options (resolveConfig options)) then 0
           else (case vd of None \<Rightarrow> 1920 | Some d \<Rightarrow> fst d) *
                cfg_minWidthRatio (extendConfig options (resolveConfig options)))
          ((case vd of None \<Rightarrow> 1920 | Some d \<Rightarrow> fst d) *
           cfg_maxWidthRatio (extendConfig options (resolveConfig options)))"
    if "createRoundedAss nts w options vd m subtitles = Inr evs \<and> idx < length subtitles"
    for evs idx
    using that event_boxWidth by blast
qed

theorem box_width_witness:
  "\<exists>evs. createRoundedAss (\<lambda>x. showInt \<lfloor>x\<rfloor>) False (noOptions\<lparr>opt_maxWidthRatio := Some (1 / 32)\<rparr>)
            None (Some [\<lparr>dim_width = 50, dim_height = 20\<rparr>])
            [\<lparr>sub_index = 1, sub_start = 0, sub_end = 1, sub_text = ascii ''Hi''\<rparr>] = Inr evs \<and>
         ev_textWidth (evs ! 0) = 50 \<and> ev_boxWidth (evs ! 0) = 60"
proof -
  let ?o = "noOptions\<lparr>opt_maxWidthRatio := Some (1 / 32)\<rparr>"
  let ?subs = "[\<lparr>sub_index = 1, sub_start = 0, sub_end = 1, sub_text = ascii ''Hi''\<rparr>]"
  let ?ds = "[\<lparr>dim_width = 50, dim_height = 20\<rparr>]"
  let ?nts = "\<lambda>x::real. showInt \<lfloor>x\<rfloor>"
  let ?ec = "extendConfig ?o (resolveConfig ?o)"
  note bw = box_width [of ?ec 50 1920 0 60 ?o "resolveConfig ?o" ?nts False None "Some ?ds" ?subs]
  obtain evs where evs: "createRoundedAss ?nts False ?o None (Some ?ds) ?subs = Inr evs"
    using createRoundedAss_returns [of ?subs ?nts False ?o None "Some ?ds"] by auto
  have i0: "0 < length ?subs" "0 < length ?ds" by simp_all
  have u: "opt_useAssMeasure ?o = None" by (simp add: noOptions_def)
  have tw: "ev_textWidth (evs ! 0) = 50"
    using event_measured [OF evs i0 u] by simp
  have cfg: "cfg_paddingH ?ec = 20" "cfg_disableMinWidth ?ec" "cfg_maxWidthRatio ?ec = 1 / 32"
    by (simp_all add: extendConfig_def resolveConfig_def orNum_def definedOr_def noOptions_def)
  from bw have "\<forall>evs idx. createRoundedAss ?nts False ?o None (Some ?ds) ?subs = Inr evs \<and>
        idx < length ?subs \<longrightarrow>
      ev_boxWidth (evs ! idx) =
        boxWidthOf ?ec (ev_textWidth (evs ! idx))
          (case None of None \<Rightarrow> 1920 | Some d \<Rightarrow> fst (d :: real \<times> real))
          (if cfg_disableMinWidth ?ec then 0
           else (case None of None \<Rightarrow> 1920 | Some d \<Rightarrow> fst (d :: real \<times> real)) *
                cfg_minWidthRatio ?ec)
          ((case None of None \<Rightarrow> 1920 | Some d \<Rightarrow> fst (d :: real \<times> real)) *
           cfg_maxWidthRatio ?ec)"
    by (elim conjE)
  from this [rule_format, of evs 0] evs i0
  have 1: "ev_boxWidth (evs ! 0) =
        boxWidthOf ?ec (ev_textWidth (evs ! 0))
          (case None of None \<Rightarrow> 1920 | Some d \<Rightarrow> fst (d :: real \<times> real))
          (if cfg_disableMinWidth ?ec then 0
           else (case None of None \<Rightarrow> 1920 | Some d \<Rightarrow> fst (d :: real \<times> real)) *
                cfg_minWidthRatio ?ec)
          ((case None of None \<Rightarrow> 1920 | Some d \<Rightarrow> fst (d :: real \<times> real)) *
           cfg_maxWidthRatio ?ec)"
    by blast
  have "ev_boxWidth (evs ! 0) = 60"
    unfolding 1 boxWidthOf_closed tw by (simp add: cfg)
  with evs tw show ?thesis by blast
qed

text \<open>
  Claim C3. The box width follows the claim for every padding other than 0
  (\<open>box_width\<close>). The case of a padding of 0 is never taken: \<open>options.paddingX || 20\<close>
  resolves a requested padding of 0 to 20, so a cue with the measured text width 50
  gets a box of width 90 where the claim, and the branch of the loop written for
  it, say 52.
\<close>

theorem box_width_zero_padding:
  "(\<exists>evs. createRoundedAss (\<lambda>x. showInt \<lfloor>x\<rfloor>) False (noOptions\<lparr>opt_paddingX := Some 0\<rparr>) None
            (Some [\<lparr>dim_width = 50, dim_height = 20\<rparr>])
            [\<lparr>sub_index = 1, sub_start = 0, sub_end = 1, sub_text = ascii ''Hi''\<rparr>] = Inr evs \<and>
          ev_textWidth (evs ! 0) = 50 \<and> ev_boxWidth (evs ! 0) = 90) \<and>
   cfg_paddingH (extendConfig (noOptions\<lparr>opt_paddingX := Some 0\<rparr>)
                  (resolveConfig (noOptions\<lparr>opt_paddingX := Some 0\<rparr>))) = 20"
proof -
  let ?o = "noOptions\<lparr>opt_paddingX := Some 0\<rparr>"
  let ?subs = "[\<lparr>sub_index = 1, sub_start = 0, sub_end = 1, sub_text = ascii ''Hi''\<rparr>]"
  let ?ds = "[\<lparr>dim_width = 50, dim_height = 20\<rparr>]"
  let ?nts = "\<lambda>x::real. showInt \<lfloor>x\<rfloor>"
  let ?ec = "extendConfig ?o (resolveConfig ?o)"
  obtain evs where evs: "createRoundedAss ?nts False ?o None (Some ?ds) ?subs = Inr evs"
    using createRoundedAss_returns [of ?subs ?nts False ?o None "Some ?ds"] by auto
  have i0: "0 < length ?subs" "0 < length ?ds" by simp_all
  have u: "opt_useAssMeasure ?o = None" by (simp add: noOptions_def)
  have tw: "ev_textWidth (evs ! 0) = 50"
    using event_measured [OF evs i0 u] by simp
  have cfg: "cfg_paddingH ?ec = 20" "cfg_disableMinWidth ?ec" "cfg_maxWidthRatio ?ec = 1"
    by (simp_all add: extendConfig_def resolveConfig_def orNum_def definedOr_def noOptions_def)
  have "ev_boxWidth (evs ! 0) = 90"
    unfolding event_boxWidth [OF evs i0(1)] boxWidthOf_closed tw by (simp add: cfg)
  with evs tw cfg(1) show ?thesis by blast
qed

text \<open>
  Claim C9. The resolved horizontal padding is never 0: \<open>options.paddingX || 20\<close>
  turns a requested 0 into 20. So in every event of \<open>createRoundedAss\<close> the box
  width is computed from \<open>textWidth + 2 * paddingH\<close>, never from \<open>textWidth + 2\<close>.
\<close>

theorem zero_padding_unreachable:
  "cfg_paddingH (extendConfig options (resolveConfig options)) \<noteq> 0 \<and>
   cfg_paddingH (extendConfig (options\<lparr>opt_paddingX := Some 0\<rparr>)
                   (resolveConfig (options\<lparr>opt_paddingX := Some 0\<rparr>))) = 20 \<and>
   (\<forall>evs idx. createRoundedAss nts w options vd m subtitles = Inr evs \<and> idx < length subtitles \<longrightarrow>
      ev_boxWidth (evs ! idx) =
        min (if cfg_disableMinWidth (extendConfig options (resolveConfig options))
             then min (ev_textWidth (evs ! idx) +
                       2 * cfg_paddingH (extendConfig options (resolveConfig options)))
                      ((case vd of None \<Rightarrow> 1920 | Some d \<Rightarrow> fst d) * 0.98)
             else max (min (ev_textWidth (evs ! idx) +
                            2 * cfg_paddingH (extendConfig options (resolveConfig options)))
                           ((case vd of None \<Rightarrow> 1920 | Some d \<Rightarrow> fst d) * 0.98))
                      ((case vd of None \<Rightarrow> 1920 | Some d \<Rightarrow> fst d) *
                       cfg_minWidthRatio (extendConfig options (resolveConfig options))))
            ((case vd of None \<Rightarrow> 1920 | Some d \<Rightarrow> fst d) *
             cfg_maxWidthRatio (extendConfig options (resolveConfig options))))"
proof -
  let ?ec = "extendConfig options (resolveConfig options)"
  have nz: "cfg_paddingH ?ec \<noteq> 0" by (rule paddingH_nonzero)
  have z: "cfg_paddingH (extendConfig (options\<lparr>opt_paddingX := Some 0\<rparr>)
                   (resolveConfig (options\<lparr>opt_paddingX := Some 0\<rparr>))) = 20"
    by (simp add: extendConfig_def resolveConfig_def orNum_def)
  have ev: "ev_boxWidth (evs ! idx) =
        min (if cfg_disableMinWidth ?ec
             then min (ev_textWidth (evs ! idx) + 2 * cfg_paddingH ?ec)
                      ((case vd of None \<Rightarrow> 1920 | Some d \<Rightarrow> fst d) * 0.98)
             else max (min (ev_textWidth (evs ! idx) + 2 * cfg_paddingH ?ec)
                           ((case vd of None \<Rightarrow> 1920 | Some d \<Rightarrow> fst d) * 0.98))
                      ((case vd of None \<Rightarrow> 1920 | Some d \<Rightarrow> fst d) * cfg_minWidthRatio ?ec))
            ((case vd of None \<Rightarrow> 1920 | Some d \<Rightarrow> fst d) * cfg_maxWidthRatio ?ec)"
    if "createRoundedAss nts w options vd m subtitles = Inr evs" "idx < length subtitles"
    for evs idx
    using nz by (simp add: event_boxWidth [OF that] boxWidthOf_closed)
  from nz z ev show ?thesis by blast
qed


theorem zero_padding_unreachable_witness:
  "\<exists>evs. createRoundedAss (\<lambda>x. showInt \<lfloor>x\<rfloor>) False (noOptions\<lparr>opt_paddingX := Some 0\<rparr>) None
            (Some [\<lparr>dim_width = 50, dim_height = 20\<rparr>])
            [\<lparr>sub_index = 1, sub_start = 0, sub_end = 1, sub_text = ascii ''Hi''\<rparr>] = Inr evs \<and>
         ev_textWidth (evs ! 0) = 50 \<and> ev_boxWidth (evs ! 0) = 90"
proof -
  let ?o = "noOptions\<lparr>opt_paddingX := Some 0\<rparr>"
  let ?subs = "[\<lparr>sub_index = 1, sub_start = 0, sub_end = 1, sub_text = ascii ''Hi''\<rparr>]"
  let ?ds = "[\<lparr>dim_width = 50, dim_height = 20\<rparr>]"
  let ?nts = "\<lambda>x::real. showInt \<lfloor>x\<rfloor>"
  obtain evs where evs: "createRoundedAss ?nts False ?o None (Some ?ds) ?subs = Inr evs"
    using createRoundedAss_returns [of ?subs ?nts False ?o None "Some ?ds"] by auto
  have tw: "ev_textWidth (evs ! 0) = 50"
    using event_measured [OF evs, of 0] by (simp add: noOptions_def)
  have cfg: "cfg_paddingH (extendConfig ?o (resolveConfig ?o)) = 20"
    "cfg_disableMinWidth (extendConfig ?o (resolveConfig ?o))"
    "cfg_maxWidthRatio (extendConfig ?o (resolveConfig ?o)) = 1"
    by (simp_all add: extendConfig_def resolveConfig_def orNum_def definedOr_def noOptions_def)
  from zero_padding_unreachable [of ?o ?nts False None "Some ?ds" ?subs]
  have "ev_boxWidth (evs ! 0) =
        min (if cfg_disableMinWidth (extendConfig ?o (resolveConfig ?o))
             then min (ev_textWidth (evs ! 0) + 2 * cfg_paddingH (extendConfig ?o (resolveConfig ?o)))
                      ((case None of None \<Rightarrow> 1920 | Some d \<Rightarrow> fst (d :: real \<times> real)) * 0.98)
             else max (min (ev_textWidth (evs ! 0) + 2 * cfg_paddingH (extendConfig ?o (resolveConfig ?o)))
                           ((case None of None \<Rightarrow> 1920 | Some d \<Rightarrow> fst (d :: real \<times> real)) * 0.98))
                      ((case None of None \<Rightarrow> 1920 | Some d \<Rightarrow> fst (d :: real \<times> real)) *
                       cfg_minWidthRatio (extendConfig ?o (resolveConfig ?o))))
            ((case None of None \<Rightarrow> 1920 | Some d \<Rightarrow> fst (d :: real \<times> real)) *
             cfg_maxWidthRatio (extendConfig ?o (resolveConfig ?o)))"
    using evs by simp
  then have "ev_boxWidth (evs ! 0) = 90"
    by (simp add: tw cfg)
  with evs tw show ?thesis by blast
qed

section \<open>Border radius\<close>

lemma drawingRadius_bounds:
  "0 \<le> drawingRadius hw hh r \<and> drawingRadius hw hh r \<le> max 1 (min hw hh - 1)"
  by (simp add: drawingRadius_def Let_def min.commute)

lemma determineBorderRadius_specified_bounds:
  "0 \<le> determineBorderRadius (Some r) hw hh vw vh \<and>
   determineBorderRadius (Some r) hw hh vw vh \<le> max 1 (min hw hh - 1)"
  by (simp add: determineBorderRadius_def Let_def min.commute)

lemma determineBorderRadius_auto_upper:
  "determineBorderRadius None hw hh vw vh \<le> max 1 (min hw hh - 1)"
  by (simp add: determineBorderRadius_def Let_def)

lemma determineBorderRadius_auto_lower:
  assumes "0 \<le> hw" "0 \<le> hh" "0 \<le> vw" "0 \<le> vh"
  shows "0 \<le> determineBorderRadius None hw hh vw vh"
  using assms by (simp add: determineBorderRadius_def Let_def)

lemma drawing_starts_at_radius:
  "hd (generateRoundedRectDrawing hw hh br) = MoveTo (- hw + drawingRadius hw hh br) (- hh)"
proof (cases "drawingRadius hw hh br > 0")
  case True
  then show ?thesis by (simp add: generateRoundedRectDrawing_def Let_def)
next
  case False
  with drawingRadius_bounds [of hw hh br] have "drawingRadius hw hh br = 0" by simp
  then show ?thesis by (simp add: generateRoundedRectDrawing_def Let_def)
qed

text \<open>
  Claim C1. Whatever radius is requested (a number, or none), the radius of a cue's
  background box lies between 0 and \<open>max(1, min(halfWidth, halfHeight) - 1)\<close>:
  \<^item> the radius the drawing uses, which is the resolved radius passed through the
    guard of \<open>generateRoundedRectDrawing\<close>, for all inputs; the drawing starts at
    \<open>-halfWidth\<close> plus that radius;
  \<^item> the radius resolved by \<open>determineBorderRadius\<close> from a requested number, for
    all inputs;
  \<^item> the radius resolved by \<open>determineBorderRadius\<close> when none is requested: the
    upper bound for all inputs, the lower bound for a box and a canvas of
    non-negative size.
  A requested radius of 1000 on a box of half-dimensions (40, 20) resolves to 19,
  and the drawing uses 19. Every event of a document is drawn from the halves of its
  box and the radius resolved for them.
\<close>

theorem effective_radius_bounds:
  "0 \<le> drawingRadius hw hh (determineBorderRadius sr hw hh vw vh) \<and>
   drawingRadius hw hh (determineBorderRadius sr hw hh vw vh) \<le> max 1 (min hw hh - 1) \<and>
   hd (generateRoundedRectDrawing hw hh br) = MoveTo (- hw + drawingRadius hw hh br) (- hh) \<and>
   0 \<le> determineBorderRadius (Some r) hw hh vw vh \<and>
   determineBorderRadius (Some r) hw hh vw vh \<le> max 1 (min hw hh - 1) \<and>
   determineBorderRadius None hw hh vw vh \<le> max 1 (min hw hh - 1) \<and>
   (0 \<le> hw \<and> 0 \<le> hh \<and> 0 \<le> vw \<and> 0 \<le> vh \<longrightarrow>
      0 \<le> determineBorderRadius None hw hh vw vh) \<and>
   determineBorderRadius (Some 1000) 40 20 vw vh = 19 \<and>
   drawingRadius 40 20 (determineBorderRadius (Some 1000) 40 20 vw vh) = 19 \<and>
   (\<forall>evs idx. createRoundedAss nts w options vd m subtitles = Inr evs \<and> idx < length subtitles \<longrightarrow>
      ev_drawing (evs ! idx) =
        generateRoundedRectDrawing (ev_boxWidth (evs ! idx) / 2) (ev_boxHeight (evs ! idx) / 2)
          (determineBorderRadius (opt_radius options)
             (ev_boxWidth (evs ! idx) / 2) (ev_boxHeight (evs ! idx) / 2)
             (case vd of None \<Rightarrow> 1920 | Some d \<Rightarrow> fst d)
             (case vd of None \<Rightarrow> 1080 | Some d \<Rightarrow> snd d)))"
proof (intro conjI allI impI)
  show "0 \<le> drawingRadius hw hh (determineBorderRadius sr hw hh vw vh)"
    using drawingRadius_bounds by blast
  show "drawingRadius hw hh (determineBorderRadius sr hw hh vw vh) \<le> max 1 (min hw hh - 1)"
    using drawingRadius_bounds by blast
  show "hd (generateRoundedRectDrawing hw hh br) = MoveTo (- hw + drawingRadius hw hh br) (- hh)"
    by (rule drawing_starts_at_radius)
  show "0 \<le> determineBorderRadius (Some r) hw hh vw vh"
    using determineBorderRadius_specified_bounds by blast
  show "determineBorderRadius (Some r) hw hh vw vh \<le> max 1 (min hw hh - 1)"
    using determineBorderRadius_specified_bounds by blast
  show "determineBorderRadius None hw hh vw vh \<le> max 1 (min hw hh - 1)"
    by (rule determineBorderRadius_auto_upper)
  show "0 \<le> determineBorderRadius None hw hh vw vh"
    if "0 \<le> hw \<and> 0 \<le> hh \<and> 0 \<le> vw \<and> 0 \<le> vh"
    using that determineBorderRadius_auto_lower by blast
  show ex: "determineBorderRadius (Some 1000) 40 20 vw vh = 19"
    by (simp add: determineBorderRadius_def)
  have "drawingRadius 40 20 19 = 19"
    by (simp add: drawingRadius_def)
  then show "drawingRadius 40 20 (determineBorderRadius (Some 1000) 40 20 vw vh) = 19"
    by (simp only: ex)
  show "ev_drawing (evs ! idx) =
        generateRoundedRectDrawing (ev_boxWidth (evs ! idx) / 2) (ev_boxHeight (evs ! idx) / 2)
          (determineBorderRadius (opt_radius options)
             (ev_boxWidth (evs ! idx) / 2) (ev_boxHeight (evs ! idx) / 2)
             (case vd of None \<Rightarrow> 1920 | Some d \<Rightarrow> fst d)
             (case vd of None \<Rightarrow> 1080 | Some d \<Rightarrow> snd d))"
    if "createRoundedAss nts w options vd m subtitles = Inr evs \<and> idx < length subtitles"
    for evs idx
  proof -
    from that have a: "createRoundedAss nts w options vd m subtitles = Inr evs"
      and b: "idx < length subtitles" by blast+
    show ?thesis
      by (simp only: event_drawing(1) [OF a b] event_drawing(2) [OF a b, symmetric])
  qed
qed

theorem effective_radius_bounds_witness:
  "(0::real) \<le> 40 \<and> (0::real) \<le> 20 \<and> (0::real) \<le> 1920 \<and> (0::real) \<le> 1080 \<and>
   0 \<le> determineBorderRadius None 40 20 1920 1080 \<and>
   determineBorderRadius None 40 20 1920 1080 \<le> max 1 (min 40 20 - 1) \<and>
   (\<exists>evs. createRoundedAss (\<lambda>x. showInt \<lfloor>x\<rfloor>) False (noOptions\<lparr>opt_radius := Some 1000\<rparr>) None
            (Some [\<lparr>dim_width = 40, dim_height = 20\<rparr>])
            [\<lparr>sub_index = 1, sub_start = 0, sub_end = 1, sub_text = ascii ''Hi''\<rparr>] = Inr evs \<and>
          ev_boxWidth (evs ! 0) = 80 \<and> ev_boxHeight (evs ! 0) = 40 \<and>
          ev_drawing (evs ! 0) = generateRoundedRectDrawing 40 20 19)"
proof -
  let ?o = "noOptions\<lparr>opt_radius := Some 1000\<rparr>"
  let ?subs = "[\<lparr>sub_index = 1, sub_start = 0, sub_end = 1, sub_text = ascii ''Hi''\<rparr>]"
  let ?ds = "[\<lparr>dim_width = 40, dim_height = 20\<rparr>]"
  let ?nts = "\<lambda>x::real. showInt \<lfloor>x\<rfloor>"
  note rb = effective_radius_bounds [of 40 20 None 1920 1080 0 1000 ?nts False ?o None "Some ?ds" ?subs]
  obtain evs where evs: "createRoundedAss ?nts False ?o None (Some ?ds) ?subs = Inr evs"
    using createRoundedAss_returns [of ?subs ?nts False ?o None "Some ?ds"] by auto
  have i0: "0 < length ?subs" "0 < length ?ds" by simp_all
  have u: "opt_useAssMeasure ?o = None" by (simp add: noOptions_def)
  have tw: "ev_textWidth (evs ! 0) = 40"
    using event_measured [OF evs i0 u] by simp
  have th: "ev_textHeight (evs ! 0) = 20"
    using event_measured_height [OF evs i0 u] by simp
  have cfg: "cfg_paddingH (extendConfig ?o (resolveConfig ?o)) = 20"
    "cfg_paddingV (extendConfig ?o (resolveConfig ?o)) = 10"
    "cfg_disableMinWidth (extendConfig ?o (resolveConfig ?o))"
    "cfg_maxWidthRatio (extendConfig ?o (resolveConfig ?o)) = 1"
    by (simp_all add: extendConfig_def resolveConfig_def orNum_def definedOr_def noOptions_def)
  have bw: "ev_boxWidth (evs ! 0) = 80"
    unfolding event_boxWidth [OF evs i0(1)] boxWidthOf_closed tw by (simp add: cfg)
  have bh: "ev_boxHeight (evs ! 0) = 40"
    unfolding event_boxHeight [OF evs i0(1)] boxHeightOf_def th by (simp add: cfg)
  from rb have "\<forall>evs idx. createRoundedAss ?nts False ?o None (Some ?ds) ?subs = Inr evs \<and>
        idx < length ?subs \<longrightarrow>
      ev_drawing (evs ! idx) =
        generateRoundedRectDrawing (ev_boxWidth (evs ! idx) / 2) (ev_boxHeight (evs ! idx) / 2)
          (determineBorderRadius (opt_radius ?o)
             (ev_boxWidth (evs ! idx) / 2) (ev_boxHeight (evs ! idx) / 2)
             (case None of None \<Rightarrow> 1920 | Some d \<Rightarrow> fst (d :: real \<times> real))
             (case None of None \<Rightarrow> 1080 | Some d \<Rightarrow> snd (d :: real \<times> real)))"
    by (elim conjE)
  from this [rule_format, of evs 0] evs
  have "ev_drawing (evs ! 0) =
      generateRoundedRectDrawing 40 20 (determineBorderRadius (Some 1000) 40 20 1920 1080)"
    by (simp add: bw bh noOptions_def)
  moreover from rb have "determineBorderRadius (Some 1000) 40 20 1920 1080 = 19"
    by (elim conjE)
  ultimately have dw: "ev_drawing (evs ! 0) = generateRoundedRectDrawing 40 20 19" by simp
  from rb have lo: "0 \<le> determineBorderRadius None 40 20 1920 1080" by simp
  from rb have hi: "determineBorderRadius None 40 20 1920 1080 \<le> max 1 (min 40 20 - 1)"
    by (elim conjE)
  have "\<exists>evs. createRoundedAss ?nts False ?o None (Some ?ds) ?subs = Inr evs \<and>
          ev_boxWidth (evs ! 0) = 80 \<and> ev_boxHeight (evs ! 0) = 40 \<and>
          ev_drawing (evs ! 0) = generateRoundedRectDrawing 40 20 19"
    using evs bw bh dw by blast
  with lo hi show ?thesis by simp
qed

section \<open>Timing normalization\<close>

subsection \<open>Rounding to a double\<close>

lemma pow2_powr: "pow2 e = 2 powr of_int e"
  by (simp add: pow2_def powr_real_of_int inverse_eq_divide)

lemma pow2_pos: "0 < pow2 e"
  by (simp add: pow2_def)

lemma toDouble_0: "toDouble 0 = 0"
  by (simp add: toDouble_def)

lemma toDouble_binade:
  assumes "pow2 e \<le> \<bar>x\<bar>" "\<bar>x\<bar> < pow2 (e + 1)" "- 1022 \<le> e"
    and "roundHalfEven (x / pow2 (e - 52)) = m"
  shows "toDouble x = pow2 (e - 52) * of_int m"
proof -
  have pos: "0 < \<bar>x\<bar>" using pow2_pos [of e] assms(1) by linarith
  then have nz: "x \<noteq> 0" by auto
  have "2 powr of_int e \<le> \<bar>x\<bar> \<and> \<bar>x\<bar> < 2 powr (of_int e + 1)"
    using assms(1,2) by (simp add: pow2_powr)
  then have "\<lfloor>log 2 \<bar>x\<bar>\<rfloor> = e"
    using pos by (subst floor_log_eq_powr_iff) simp_all
  then show ?thesis using nz assms(3,4) by (simp add: toDouble_def Let_def)
qed

lemma toDouble_1: "toDouble 1 = 1"
  by (rule trans [OF toDouble_binade [of 0 1 4503599627370496]])
     (simp_all add: pow2_def roundHalfEven_def)

lemma toDouble_2: "toDouble 2 = 2"
  by (rule trans [OF toDouble_binade [of 1 2 4503599627370496]])
     (simp_all add: pow2_def roundHalfEven_def)

lemma tenth_value: "tenth = 3602879701896397 / 36028797018963968"
  unfolding tenth_def
  by (rule trans [OF toDouble_binade [of "- 4" "1 / 10" 7205759403792794]])
     (simp_all add: pow2_def roundHalfEven_def)

lemma toDouble_fifth: "toDouble (1 / 5) = 3602879701896397 / 18014398509481984"
  by (rule trans [OF toDouble_binade [of "- 3" "1 / 5" 7205759403792794]])
     (simp_all add: pow2_def roundHalfEven_def)

lemma toDouble_9_10: "toDouble (9 / 10) = 8106479329266893 / 9007199254740992"
  by (rule trans [OF toDouble_binade [of "- 1" "9 / 10" 8106479329266893]])
     (simp_all add: pow2_def roundHalfEven_def)

lemma toDouble_21_20: "toDouble (21 / 20) = 4728779608739021 / 4503599627370496"
  by (rule trans [OF toDouble_binade [of 0 "21 / 20" 4728779608739021]])
     (simp_all add: pow2_def roundHalfEven_def)

text \<open>\<open>1 - 0.9\<close> is \<open>0.09999999999999998\<close>, below \<open>0.1\<close>.\<close>

lemma gap_900_1000: "jsSub 1 (8106479329266893 / 9007199254740992) < tenth"
proof -
  have "jsSub 1 (8106479329266893 / 9007199254740992) = 900719925474099 / 9007199254740992"
    unfolding jsSub_def
    by (rule trans [OF toDouble_binade [of "- 4" _ 7205759403792792]])
       (simp_all add: pow2_def roundHalfEven_def)
  then show ?thesis by (simp add: tenth_value)
qed

text \<open>\<open>0.2 - 0.1\<close> is \<open>0.1\<close>.\<close>

lemma gap_100_200:
  "jsSub (3602879701896397 / 18014398509481984) (3602879701896397 / 36028797018963968) = tenth"
  unfolding jsSub_def tenth_value
  by (rule trans [OF toDouble_binade [of "- 4" _ 7205759403792794]])
     (simp_all add: pow2_def roundHalfEven_def)

text \<open>\<open>1.05 - 1\<close> is \<open>0.050000000000000044\<close>.\<close>

lemma gap_1000_1050: "jsSub (4728779608739021 / 4503599627370496) 1 < tenth"
proof -
  have "jsSub (4728779608739021 / 4503599627370496) 1 = 225179981368525 / 4503599627370496"
    unfolding jsSub_def
    by (rule trans [OF toDouble_binade [of "- 5" _ 7205759403792800]])
       (simp_all add: pow2_def roundHalfEven_def)
  then show ?thesis by (simp add: tenth_value)
qed

text \<open>The seconds of some millisecond values.\<close>

lemma jsDiv_0_1000: "jsDiv 0 1000 = 0"
  by (simp add: jsDiv_def toDouble_0)

lemma jsDiv_100_1000: "jsDiv 100 1000 = 3602879701896397 / 36028797018963968"
  using tenth_value by (simp add: jsDiv_def tenth_def)

lemma jsDiv_200_1000: "jsDiv 200 1000 = 3602879701896397 / 18014398509481984"
  using toDouble_fifth by (simp add: jsDiv_def)

lemma jsDiv_900_1000: "jsDiv 900 1000 = 8106479329266893 / 9007199254740992"
  using toDouble_9_10 by (simp add: jsDiv_def)

lemma jsDiv_1000_1000: "jsDiv 1000 1000 = 1"
  by (simp add: jsDiv_def toDouble_1)

lemma jsDiv_1050_1000: "jsDiv 1050 1000 = 4728779608739021 / 4503599627370496"
  using toDouble_21_20 by (simp add: jsDiv_def)

lemma jsDiv_2000_1000: "jsDiv 2000 1000 = 2"
  by (simp add: jsDiv_def toDouble_2)

text \<open>
  Two gaps of 100 milliseconds: from 0.900 to 1.000 the difference of the doubles is
  below \<open>0.1\<close>, from 0.100 to 0.200 it is not.
\<close>

lemma gap_closed_900_1000: "jsSub (jsDiv 1000 1000) (jsDiv 900 1000) < tenth"
  using gap_900_1000 by (simp add: jsDiv_1000_1000 jsDiv_900_1000)

lemma gap_left_100_200: "\<not> jsSub (jsDiv 200 1000) (jsDiv 100 1000) < tenth"
  using gap_100_200 by (simp add: jsDiv_100_1000 jsDiv_200_1000)

subsection \<open>The pass over the subtitles\<close>

lemma fixTimingFrom_step:
  "int i < int (length xs) - 1 \<Longrightarrow>
   fixTimingFrom i xs = fixTimingFrom (i + 1) (xs[i := closeGap (xs ! i) (xs ! (i + 1))])"
  by (subst fixTimingFrom.simps) (simp add: closeGap_def)

lemma fixTimingFrom_stop:
  "\<not> int i < int (length xs) - 1 \<Longrightarrow> fixTimingFrom i xs = xs"
  by (subst fixTimingFrom.simps) simp

lemma fixTimingFrom_length: "length (fixTimingFrom i xs) = length xs"
proof (induction i xs rule: fixTimingFrom.induct)
  case (1 i xs)
  show ?case
  proof (cases "int i < int (length xs) - 1")
    case True
    have "length (fixTimingFrom i xs) =
          length (fixTimingFrom (i + 1)
            (if jsSub (sub_start (xs ! (i + 1))) (sub_end (xs ! i)) < tenth
             then xs[i := (xs ! i)\<lparr>sub_end := sub_start (xs ! (i + 1))\<rparr>] else xs))"
      using True by (subst fixTimingFrom.simps) simp
    also have "\<dots> = length xs"
      using "1.IH" [OF True] by (simp split: if_splits)
    finally show ?thesis .
  next
    case False
    then show ?thesis by (simp add: fixTimingFrom_stop)
  qed
qed

lemma fixTimingFrom_nth:
  "j < length xs \<Longrightarrow>
   fixTimingFrom i xs ! j =
     (if i \<le> j \<and> j + 1 < length xs then closeGap (xs ! j) (xs ! (j + 1)) else xs ! j)"
proof (induction i xs arbitrary: j rule: fixTimingFrom.induct)
  case (1 i xs)
  show ?case
  proof (cases "int i < int (length xs) - 1")
    case True
    let ?ys = "if jsSub (sub_start (xs ! (i + 1))) (sub_end (xs ! i)) < tenth
             then xs[i := (xs ! i)\<lparr>sub_end := sub_start (xs ! (i + 1))\<rparr>] else xs"
    have ys: "?ys = xs[i := closeGap (xs ! i) (xs ! (i + 1))]"
      by (simp add: closeGap_def)
    have step: "fixTimingFrom i xs = fixTimingFrom (i + 1) ?ys"
      using True by (subst fixTimingFrom.simps) simp
    have len: "length ?ys = length xs" by simp
    have "fixTimingFrom (i + 1) ?ys ! j =
       (if i + 1 \<le> j \<and> j + 1 < length ?ys then closeGap (?ys ! j) (?ys ! (j + 1)) else ?ys ! j)"
      using "1.IH" [OF True, of j] "1.prems" len by simp
    then show ?thesis
      using True "1.prems" unfolding step ys
      by (auto simp: nth_list_update)
  next
    case False
    then show ?thesis using "1.prems" by (auto simp: fixTimingFrom_stop)
  qed
qed

lemma closeGap_start: "sub_start (closeGap c n) = sub_start c"
  by (simp add: closeGap_def)

lemma closeGap_gap:
  "tenth \<le> jsSub (sub_start n) (sub_end (closeGap c n)) \<or> sub_end (closeGap c n) = sub_start n"
  by (simp add: closeGap_def)

lemma parseSubtitles_nth:
  assumes "i < length cues"
  shows "parseSubtitles cues ! i =
     (if i + 1 < length cues
      then closeGap (toInternal i (cues ! i)) (toInternal (i + 1) (cues ! (i + 1)))
      else toInternal i (cues ! i))"
  using assms
  by (simp add: parseSubtitles_def fixTiming_def fixTimingFrom_nth nth_enumerate_eq)

text \<open>
  Claim C2. Timing normalization is one forward pass over the subtitles in their
  order: every subtitle but the last gets the end \<open>next.start\<close> when the test
  \<open>next.start - current.end < 0.1\<close> of the code holds on the values before the pass,
  and is unchanged otherwise; the last subtitle, the number of subtitles, their
  order, starts and texts are unchanged. After the pass, for every adjacent pair, the
  test fails, that is \<open>next.start - current.end \<ge> 0.1\<close>, or \<open>current.end = next.start\<close>.
  The difference and \<open>0.1\<close> are those of the code, doubles: the times come from the
  milliseconds of the file by a division by 1000, so a cue ending at 0.900 before a
  cue starting at 1.000 has the gap \<open>0.09999999999999998\<close> and is closed, one ending
  at 0.100 before one starting at 0.200 has the gap \<open>0.1\<close> and is not, and one ending
  at 1.000 before one starting at 1.050 gets the end \<open>1.05\<close>.
\<close>

theorem timing_normalization:
  "length (fixTiming subs) = length subs \<and>
   (\<forall>i. i + 1 < length subs \<longrightarrow>
      fixTiming subs ! i =
        (if jsSub (sub_start (subs ! (i + 1))) (sub_end (subs ! i)) < tenth
         then (subs ! i)\<lparr>sub_end := sub_start (subs ! (i + 1))\<rparr> else subs ! i)) \<and>
   (\<forall>i. i + 1 = length subs \<longrightarrow> fixTiming subs ! i = subs ! i) \<and>
   (\<forall>i. i + 1 < length (fixTiming subs) \<longrightarrow>
      tenth \<le> jsSub (sub_start (fixTiming subs ! (i + 1))) (sub_end (fixTiming subs ! i)) \<or>
      sub_end (fixTiming subs ! i) = sub_start (fixTiming subs ! (i + 1))) \<and>
   length (parseSubtitles cues) = length cues \<and>
   (\<forall>i. i < length cues \<longrightarrow>
      sub_index (parseSubtitles cues ! i) = i + 1 \<and>
      sub_start (parseSubtitles cues ! i) = jsDiv (cue_start (cues ! i)) 1000 \<and>
      sub_text (parseSubtitles cues ! i) = replaceNewlines (cue_text (cues ! i))) \<and>
   (\<forall>i. i + 1 < length cues \<longrightarrow>
      sub_end (parseSubtitles cues ! i) =
        (if jsSub (jsDiv (cue_start (cues ! (i + 1))) 1000) (jsDiv (cue_end (cues ! i)) 1000) < tenth
         then jsDiv (cue_start (cues ! (i + 1))) 1000 else jsDiv (cue_end (cues ! i)) 1000)) \<and>
   (\<forall>i. i + 1 = length cues \<longrightarrow>
      sub_end (parseSubtitles cues ! i) = jsDiv (cue_end (cues ! i)) 1000) \<and>
   (\<forall>i. i + 1 < length cues \<longrightarrow>
      tenth \<le> jsSub (sub_start (parseSubtitles cues ! (i + 1))) (sub_end (parseSubtitles cues ! i)) \<or>
      sub_end (parseSubtitles cues ! i) = sub_start (parseSubtitles cues ! (i + 1))) \<and>
   jsSub (jsDiv 1000 1000) (jsDiv 900 1000) < tenth \<and>
   \<not> jsSub (jsDiv 200 1000) (jsDiv 100 1000) < tenth"
proof (intro conjI allI impI)
  show "jsSub (jsDiv 1000 1000) (jsDiv 900 1000) < tenth"
    by (rule gap_closed_900_1000)
  show "\<not> jsSub (jsDiv 200 1000) (jsDiv 100 1000) < tenth"
    by (rule gap_left_100_200)
  show len: "length (fixTiming subs) = length subs"
    by (simp add: fixTiming_def fixTimingFrom_length)
  have inner: "fixTiming subs ! i = closeGap (subs ! i) (subs ! (i + 1))"
    if "i + 1 < length subs" for i
    using that by (simp add: fixTiming_def fixTimingFrom_nth)
  show "fixTiming subs ! i =
        (if jsSub (sub_start (subs ! (i + 1))) (sub_end (subs ! i)) < tenth
         then (subs ! i)\<lparr>sub_end := sub_start (subs ! (i + 1))\<rparr> else subs ! i)"
    if "i + 1 < length subs" for i
    using inner [OF that] by (simp add: closeGap_def)
  show "fixTiming subs ! i = subs ! i" if "i + 1 = length subs" for i
    using that by (simp add: fixTiming_def fixTimingFrom_nth)
  have start: "sub_start (fixTiming subs ! j) = sub_start (subs ! j)" if "j < length subs" for j
    using that by (simp add: fixTiming_def fixTimingFrom_nth closeGap_start)
  show "tenth \<le> jsSub (sub_start (fixTiming subs ! (i + 1))) (sub_end (fixTiming subs ! i)) \<or>
      sub_end (fixTiming subs ! i) = sub_start (fixTiming subs ! (i + 1))"
    if "i + 1 < length (fixTiming subs)" for i
  proof -
    from that len have i: "i + 1 < length subs" by simp
    then have s: "sub_start (fixTiming subs ! Suc i) = sub_start (subs ! Suc i)"
      using start [of "Suc i"] by simp
    show ?thesis
      using closeGap_gap [of "subs ! (i + 1)" "subs ! i"]
      by (simp add: inner [OF i] s)
  qed
  show "length (parseSubtitles cues) = length cues"
    by (simp add: parseSubtitles_def fixTiming_def fixTimingFrom_length)
  show "sub_index (parseSubtitles cues ! i) = i + 1" if "i < length cues" for i
    by (simp add: parseSubtitles_nth [OF that] closeGap_def toInternal_def)
  show pstart: "sub_start (parseSubtitles cues ! i) = jsDiv (cue_start (cues ! i)) 1000"
    if "i < length cues" for i
    by (simp add: parseSubtitles_nth [OF that] closeGap_def toInternal_def)
  show "sub_text (parseSubtitles cues ! i) = replaceNewlines (cue_text (cues ! i))"
    if "i < length cues" for i
    by (simp add: parseSubtitles_nth [OF that] closeGap_def toInternal_def)
  show pend: "sub_end (parseSubtitles cues ! i) =
        (if jsSub (jsDiv (cue_start (cues ! (i + 1))) 1000) (jsDiv (cue_end (cues ! i)) 1000) < tenth
         then jsDiv (cue_start (cues ! (i + 1))) 1000 else jsDiv (cue_end (cues ! i)) 1000)"
    if "i + 1 < length cues" for i
  proof -
    from that have "i < length cues" by simp
    from parseSubtitles_nth [OF this] that show ?thesis
      by (simp add: closeGap_def toInternal_def)
  qed
  show "sub_end (parseSubtitles cues ! i) = jsDiv (cue_end (cues ! i)) 1000"
    if "i + 1 = length cues" for i
  proof -
    from that have "i < length cues" by simp
    from parseSubtitles_nth [OF this] that show ?thesis
      by (simp add: toInternal_def)
  qed
  show "tenth \<le> jsSub (sub_start (parseSubtitles cues ! (i + 1))) (sub_end (parseSubtitles cues ! i)) \<or>
      sub_end (parseSubtitles cues ! i) = sub_start (parseSubtitles cues ! (i + 1))"
    if "i + 1 < length cues" for i
  proof -
    have s: "sub_start (parseSubtitles cues ! Suc i) = jsDiv (cue_start (cues ! Suc i)) 1000"
      using pstart [of "Suc i"] that by simp
    show ?thesis
      using pend [OF that] s by (simp add: not_less)
  qed
qed

theorem timing_normalization_witness:
  "length (fixTiming
     [\<lparr>sub_index = 1, sub_start = 0, sub_end = 8106479329266893 / 9007199254740992,
        sub_text = ascii ''Hi''\<rparr>,
      \<lparr>sub_index = 2, sub_start = 1, sub_end = 2, sub_text = ascii ''Bye''\<rparr>]) = 2 \<and>
   sub_end (fixTiming
     [\<lparr>sub_index = 1, sub_start = 0, sub_end = 8106479329266893 / 9007199254740992,
        sub_text = ascii ''Hi''\<rparr>,
      \<lparr>sub_index = 2, sub_start = 1, sub_end = 2, sub_text = ascii ''Bye''\<rparr>] ! 0) = 1 \<and>
   sub_end (fixTiming
     [\<lparr>sub_index = 1, sub_start = 0, sub_end = 8106479329266893 / 9007199254740992,
        sub_text = ascii ''Hi''\<rparr>,
      \<lparr>sub_index = 2, sub_start = 1, sub_end = 2, sub_text = ascii ''Bye''\<rparr>] ! 1) = 2 \<and>
   sub_end (parseSubtitles
     [\<lparr>cue_start = 0, cue_end = 1000, cue_text = ascii ''Hi''\<rparr>,
      \<lparr>cue_start = 1050, cue_end = 2000, cue_text = ascii ''Bye''\<rparr>] ! 0) =
     4728779608739021 / 4503599627370496 \<and>
   sub_end (parseSubtitles
     [\<lparr>cue_start = 0, cue_end = 1000, cue_text = ascii ''Hi''\<rparr>,
      \<lparr>cue_start = 1050, cue_end = 2000, cue_text = ascii ''Bye''\<rparr>] ! 1) = 2 \<and>
   sub_start (parseSubtitles
     [\<lparr>cue_start = 0, cue_end = 1000, cue_text = ascii ''Hi''\<rparr>,
      \<lparr>cue_start = 1050, cue_end = 2000, cue_text = ascii ''Bye''\<rparr>] ! 1) =
     4728779608739021 / 4503599627370496 \<and>
   sub_end (parseSubtitles
     [\<lparr>cue_start = 0, cue_end = 900, cue_text = ascii ''Hi''\<rparr>,
      \<lparr>cue_start = 1000, cue_end = 2000, cue_text = ascii ''Bye''\<rparr>] ! 0) = 1 \<and>
   sub_end (parseSubtitles
     [\<lparr>cue_start = 0, cue_end = 100, cue_text = ascii ''Hi''\<rparr>,
      \<lparr>cue_start = 200, cue_end = 300, cue_text = ascii ''Bye''\<rparr>] ! 0) =
     3602879701896397 / 36028797018963968 \<and>
   sub_start (parseSubtitles
     [\<lparr>cue_start = 0, cue_end = 100, cue_text = ascii ''Hi''\<rparr>,
      \<lparr>cue_start = 200, cue_end = 300, cue_text = ascii ''Bye''\<rparr>] ! 1) =
     3602879701896397 / 18014398509481984"
proof -
  let ?s = "[\<lparr>sub_index = 1, sub_start = 0, sub_end = 8106479329266893 / 9007199254740992,
        sub_text = ascii ''Hi''\<rparr>,
      \<lparr>sub_index = 2, sub_start = 1, sub_end = 2, sub_text = ascii ''Bye''\<rparr>]"
  let ?a = "[\<lparr>cue_start = 0, cue_end = 1000, cue_text = ascii ''Hi''\<rparr>,
      \<lparr>cue_start = 1050, cue_end = 2000, cue_text = ascii ''Bye''\<rparr>]"
  let ?b = "[\<lparr>cue_start = 0, cue_end = 900, cue_text = ascii ''Hi''\<rparr>,
      \<lparr>cue_start = 1000, cue_end = 2000, cue_text = ascii ''Bye''\<rparr>]"
  let ?c = "[\<lparr>cue_start = 0, cue_end = 100, cue_text = ascii ''Hi''\<rparr>,
      \<lparr>cue_start = 200, cue_end = 300, cue_text = ascii ''Bye''\<rparr>]"
  note ta = timing_normalization [of ?s ?a]
  note tb = timing_normalization [of ?s ?b]
  note tc = timing_normalization [of ?s ?c]
  have ls: "length (fixTiming ?s) = length ?s"
    using ta by (elim conjE)
  have ins: "\<forall>i. i + 1 < length ?s \<longrightarrow>
      fixTiming ?s ! i =
        (if jsSub (sub_start (?s ! (i + 1))) (sub_end (?s ! i)) < tenth
         then (?s ! i)\<lparr>sub_end := sub_start (?s ! (i + 1))\<rparr> else ?s ! i)"
    using ta by (elim conjE)
  have es: "\<forall>i. i + 1 = length ?s \<longrightarrow> fixTiming ?s ! i = ?s ! i"
    using ta by (elim conjE)
  have sa: "\<forall>i. i < length ?a \<longrightarrow>
      sub_index (parseSubtitles ?a ! i) = i + 1 \<and>
      sub_start (parseSubtitles ?a ! i) = jsDiv (cue_start (?a ! i)) 1000 \<and>
      sub_text (parseSubtitles ?a ! i) = replaceNewlines (cue_text (?a ! i))"
    using ta by (elim conjE)
  have ia: "\<forall>i. i + 1 < length ?a \<longrightarrow>
      sub_end (parseSubtitles ?a ! i) =
        (if jsSub (jsDiv (cue_start (?a ! (i + 1))) 1000) (jsDiv (cue_end (?a ! i)) 1000) < tenth
         then jsDiv (cue_start (?a ! (i + 1))) 1000 else jsDiv (cue_end (?a ! i)) 1000)"
    using ta by (elim conjE)
  have ea: "\<forall>i. i + 1 = length ?a \<longrightarrow>
      sub_end (parseSubtitles ?a ! i) = jsDiv (cue_end (?a ! i)) 1000"
    using ta by (elim conjE)
  have ib: "\<forall>i. i + 1 < length ?b \<longrightarrow>
      sub_end (parseSubtitles ?b ! i) =
        (if jsSub (jsDiv (cue_start (?b ! (i + 1))) 1000) (jsDiv (cue_end (?b ! i)) 1000) < tenth
         then jsDiv (cue_start (?b ! (i + 1))) 1000 else jsDiv (cue_end (?b ! i)) 1000)"
    using tb by (elim conjE)
  have sc: "\<forall>i. i < length ?c \<longrightarrow>
      sub_index (parseSubtitles ?c ! i) = i + 1 \<and>
      sub_start (parseSubtitles ?c ! i) = jsDiv (cue_start (?c ! i)) 1000 \<and>
      sub_text (parseSubtitles ?c ! i) = replaceNewlines (cue_text (?c ! i))"
    using tc by (elim conjE)
  have ic: "\<forall>i. i + 1 < length ?c \<longrightarrow>
      sub_end (parseSubtitles ?c ! i) =
        (if jsSub (jsDiv (cue_start (?c ! (i + 1))) 1000) (jsDiv (cue_end (?c ! i)) 1000) < tenth
         then jsDiv (cue_start (?c ! (i + 1))) 1000 else jsDiv (cue_end (?c ! i)) 1000)"
    using tc by (elim conjE)
  have s0: "length (fixTiming ?s) = 2"
    using ls by simp
  have s1: "sub_end (fixTiming ?s ! 0) = 1"
    using ins [rule_format, of 0] gap_900_1000 by simp
  have s2: "sub_end (fixTiming ?s ! 1) = 2"
    using es [rule_format, of 1] by simp
  have a0: "sub_end (parseSubtitles ?a ! 0) = 4728779608739021 / 4503599627370496"
    using ia [rule_format, of 0] gap_1000_1050
    by (simp add: jsDiv_1000_1000 jsDiv_1050_1000)
  have a1: "sub_end (parseSubtitles ?a ! 1) = 2"
    using ea [rule_format, of 1] by (simp add: jsDiv_2000_1000)
  have a2: "sub_start (parseSubtitles ?a ! 1) = 4728779608739021 / 4503599627370496"
    using sa [rule_format, of 1] by (simp add: jsDiv_1050_1000)
  have b0: "sub_end (parseSubtitles ?b ! 0) = 1"
    using ib [rule_format, of 0] gap_900_1000
    by (simp add: jsDiv_1000_1000 jsDiv_900_1000)
  have c0: "sub_end (parseSubtitles ?c ! 0) = 3602879701896397 / 36028797018963968"
    using ic [rule_format, of 0] gap_100_200
    by (simp add: jsDiv_100_1000 jsDiv_200_1000)
  have c1: "sub_start (parseSubtitles ?c ! 1) = 3602879701896397 / 18014398509481984"
    using sc [rule_format, of 1] by (simp add: jsDiv_200_1000)
  from s0 s1 s2 a0 a1 a2 b0 c0 c1 show ?thesis by blast
qed

section \<open>Timestamp format\<close>

lemma showNat_0: "showNat 0 = ''0''"
  by (simp add: showNat.simps digitChar_def)

lemma showNat_59: "showNat 59 = ''59''"
  by (simp add: showNat.simps digitChar_def)

lemma showNat_60: "showNat 60 = ''60''"
  by (simp add: showNat.simps digitChar_def)

lemma toFixed2_59996: "toFixed2 (59996 / 1000) = ''60.00''"
proof -
  have n: "nat \<lfloor>\<bar>59996 / 1000 :: real\<bar> * 100 + 1 / 2\<rfloor> = 6000" by simp
  show ?thesis
    unfolding toFixed2_def Let_def n by (simp add: showNat_0 showNat_60 padStart_def)
qed

lemma jsRem_nonneg:
  assumes "0 \<le> x" "0 < y"
  shows "jsRem x y = x - y * of_int \<lfloor>x / y\<rfloor>" "0 \<le> jsRem x y" "jsRem x y < y"
proof -
  from assms have q: "\<not> x / y < 0" by (simp add: not_less)
  then show eq: "jsRem x y = x - y * of_int \<lfloor>x / y\<rfloor>" by (simp add: jsRem_def)
  have "y * of_int \<lfloor>x / y\<rfloor> \<le> y * (x / y)"
    using assms(2) of_int_floor_le [of "x / y"] by (intro mult_left_mono) auto
  also have "y * (x / y) = x" using assms(2) by simp
  finally show "0 \<le> jsRem x y" unfolding eq by simp
  have "x / y < of_int \<lfloor>x / y\<rfloor> + 1" by linarith
  then have "y * (x / y) < y * (of_int \<lfloor>x / y\<rfloor> + 1)"
    using assms(2) by (intro mult_strict_left_mono) auto
  moreover have "y * (x / y) = x" using assms(2) by simp
  ultimately show "jsRem x y < y" unfolding eq by (simp add: algebra_simps)
qed

lemma length_showNat_1: "k < 10 \<Longrightarrow> length (showNat k) = 1"
  by (subst showNat.simps) simp

lemma length_showNat_2: "10 \<le> k \<Longrightarrow> k < 100 \<Longrightarrow> length (showNat k) = 2"
  by (subst showNat.simps) (simp add: length_showNat_1)

lemma length_pad2: "k < 100 \<Longrightarrow> length (padStart 2 (CHR ''0'') (showNat k)) = 2"
  by (cases "k < 10") (simp_all add: padStart_def length_showNat_1 length_showNat_2)

lemma padStart_5_seconds:
  assumes "q < 100" "length fr = 3"
  shows "padStart 5 (CHR ''0'') (showNat q @ fr) = padStart 2 (CHR ''0'') (showNat q) @ fr"
  using assms by (cases "q < 10") (simp_all add: padStart_def length_showNat_1 length_showNat_2)

lemma formatAssTime_nonneg:
  assumes "0 \<le> seconds"
  shows "formatAssTime seconds =
           showNat (nat \<lfloor>seconds / 3600\<rfloor>) @ '':'' @
           padStart 2 (CHR ''0'') (showNat (nat \<lfloor>jsRem seconds 3600 / 60\<rfloor>)) @ '':'' @
           padStart 2 (CHR ''0'') (showNat (nat \<lfloor>jsRem seconds 60 * 100 + 1 / 2\<rfloor> div 100)) @ ''.'' @
           padStart 2 (CHR ''0'') (showNat (nat \<lfloor>jsRem seconds 60 * 100 + 1 / 2\<rfloor> mod 100))"
    and "nat \<lfloor>jsRem seconds 3600 / 60\<rfloor> < 60"
    and "nat \<lfloor>jsRem seconds 60 * 100 + 1 / 2\<rfloor> div 100 \<le> 60"
    and "nat \<lfloor>jsRem seconds 60 * 100 + 1 / 2\<rfloor> div 100 < 60 \<longleftrightarrow> jsRem seconds 60 < 59.995"
proof -
  let ?r = "jsRem seconds 3600" and ?s = "jsRem seconds 60"
  let ?n = "nat \<lfloor>?s * 100 + 1 / 2\<rfloor>"
  have r: "0 \<le> ?r" "?r < 3600" using jsRem_nonneg [of seconds 3600] assms by simp_all
  have s: "0 \<le> ?s" "?s < 60" using jsRem_nonneg [of seconds 60] assms by simp_all
  have h0: "0 \<le> \<lfloor>seconds / 3600\<rfloor>" using assms by simp
  have m0: "0 \<le> \<lfloor>?r / 60\<rfloor>" using r by simp
  have "\<lfloor>?r / 60\<rfloor> < 60"
  proof -
    have "?r / 60 < of_int 60" using r by simp
    then show ?thesis by (simp only: floor_less_iff)
  qed
  with m0 show m: "nat \<lfloor>?r / 60\<rfloor> < 60" by linarith
  have "\<lfloor>?s * 100 + 1 / 2\<rfloor> < 6001"
  proof -
    have "?s * 100 + 1 / 2 < of_int 6001" using s by simp
    then show ?thesis by (simp only: floor_less_iff)
  qed
  moreover have n0: "0 \<le> \<lfloor>?s * 100 + 1 / 2\<rfloor>" using s by simp
  ultimately have n: "?n \<le> 6000" by linarith
  then show q: "?n div 100 \<le> 60" by simp
  have "?n div 100 < 60 \<longleftrightarrow> ?n < 6000" by (simp add: div_less_iff_less_mult)
  also have "\<dots> \<longleftrightarrow> \<lfloor>?s * 100 + 1 / 2\<rfloor> < 6000"
    by (simp only: nat_less_iff [OF n0] of_nat_numeral)
  also have "\<dots> \<longleftrightarrow> ?s * 100 + 1 / 2 < of_int 6000" by (simp only: floor_less_iff)
  also have "\<dots> \<longleftrightarrow> ?s < 59.995"
  proof
    assume "?s * 100 + 1 / 2 < of_int 6000"
    then show "?s < 59.995" by simp
  next
    assume "?s < 59.995"
    then show "?s * 100 + 1 / 2 < of_int 6000" by simp
  qed
  finally show "?n div 100 < 60 \<longleftrightarrow> ?s < 59.995" .
  have abs: "\<bar>?s\<bar> = ?s" "\<not> ?s < 0" using s by simp_all
  have fx: "toFixed2 ?s =
      showNat (?n div 100) @ (''.'' @ padStart 2 (CHR ''0'') (showNat (?n mod 100)))"
    by (simp add: toFixed2_def Let_def abs)
  have len: "length (''.'' @ padStart 2 (CHR ''0'') (showNat (?n mod 100))) = 3"
    by (simp add: length_pad2)
  have q100: "?n div 100 < 100" using q by simp
  have sec: "padStart 5 (CHR ''0'') (toFixed2 ?s) =
      padStart 2 (CHR ''0'') (showNat (?n div 100)) @ ''.'' @
      padStart 2 (CHR ''0'') (showNat (?n mod 100))"
    unfolding fx by (simp only: padStart_5_seconds [OF q100 len])
  have hs: "showInt \<lfloor>seconds / 3600\<rfloor> = showNat (nat \<lfloor>seconds / 3600\<rfloor>)"
    using h0 by (simp add: showInt_def)
  have ms: "showInt \<lfloor>?r / 60\<rfloor> = showNat (nat \<lfloor>?r / 60\<rfloor>)"
    using m0 by (simp add: showInt_def)
  show "formatAssTime seconds =
           showNat (nat \<lfloor>seconds / 3600\<rfloor>) @ '':'' @
           padStart 2 (CHR ''0'') (showNat (nat \<lfloor>?r / 60\<rfloor>)) @ '':'' @
           padStart 2 (CHR ''0'') (showNat (?n div 100)) @ ''.'' @
           padStart 2 (CHR ''0'') (showNat (?n mod 100))"
    unfolding formatAssTime_def Let_def hs ms sec by simp
qed

text \<open>
  Claim C4. For a non-negative time the timestamp is \<open>H:MM:SS.cc\<close>: the hours
  without padding, two digits of minutes below 60, two digits of seconds, a point
  and two digits of centiseconds (\<open>formatAssTime_nonneg\<close>). The seconds are below 60
  only when the remainder of the time modulo 60 is below 59.995: \<open>toFixed(2)\<close>
  rounds after the remainder is taken, and a remainder from 59.995 on is written
  \<open>60.00\<close> with no carry into the minutes. At 59.996 seconds the timestamp is
  \<open>0:00:60.00\<close>, at 3599.996 seconds it is \<open>0:59:60.00\<close>.
\<close>

theorem timestamp_seconds_overflow:
  "formatAssTime (59996 / 1000) = ''0:00:60.00'' \<and>
   formatAssTime (3599996 / 1000) = ''0:59:60.00''"
proof -
  have a: "formatAssTime (59996 / 1000) = ''0:00:60.00''"
  proof -
    have h: "\<lfloor>(59996 / 1000 :: real) / 3600\<rfloor> = 0" by simp
    have r1: "jsRem (59996 / 1000) 3600 = 59996 / 1000" by (simp add: jsRem_def)
    have m: "\<lfloor>(59996 / 1000 :: real) / 60\<rfloor> = 0" by simp
    have r2: "jsRem (59996 / 1000) 60 = 59996 / 1000" by (simp add: jsRem_def)
    show ?thesis
      unfolding formatAssTime_def Let_def h r1 m r2 toFixed2_59996
      by (simp add: showInt_def showNat_0 padStart_def)
  qed
  have b: "formatAssTime (3599996 / 1000) = ''0:59:60.00''"
  proof -
    have h: "\<lfloor>(3599996 / 1000 :: real) / 3600\<rfloor> = 0" by simp
    have r1: "jsRem (3599996 / 1000) 3600 = 3599996 / 1000" by (simp add: jsRem_def)
    have m: "\<lfloor>(3599996 / 1000 :: real) / 60\<rfloor> = 59" by simp
    have r2: "jsRem (3599996 / 1000) 60 = 59996 / 1000" by (simp add: jsRem_def)
    show ?thesis
      unfolding formatAssTime_def Let_def h r1 m r2 toFixed2_59996
      by (simp add: showInt_def showNat_0 showNat_59 padStart_def)
  qed
  from a b show ?thesis by simp
qed

section \<open>Code units\<close>

lemma unat_codeUnit: "unat (codeUnit c) = of_char c"
proof -
  have lt: "(of_char c :: nat) < 2 ^ 16"
    by (rule less_trans [OF nat_of_char_less_256]) simp
  have "codeUnit c = (of_nat (of_char c) :: 16 word)"
    by (simp add: codeUnit_def of_nat_of_char)
  then have "unat (codeUnit c) = unat (of_nat (of_char c) :: 16 word)" by simp
  also have "\<dots> = of_char c" using lt by (simp add: unat_of_nat)
  finally show ?thesis .
qed

lemma codeUnit_eq_iff: "codeUnit c = codeUnit d \<longleftrightarrow> c = d"
proof
  assume "codeUnit c = codeUnit d"
  then have "unat (codeUnit c) = unat (codeUnit d)" by simp
  then have "(of_char c :: nat) = of_char d" by (simp add: unat_codeUnit)
  then show "c = d" by simp
qed simp

lemma ascii_append: "ascii (a @ b) = ascii a @ ascii b"
  by (simp add: ascii_def)

lemma ascii_Cons: "ascii (c # s) = codeUnit c # ascii s"
  by (simp add: ascii_def)

lemma ascii_Nil: "ascii [] = []"
  by (simp add: ascii_def)

lemma codeUnit_in_ascii: "codeUnit c \<in> set (ascii s) \<longleftrightarrow> c \<in> set s"
  by (auto simp: ascii_def codeUnit_eq_iff)

section \<open>Scripts\<close>

lemma isRtlScript_iff: "isRtlScript script \<longleftrightarrow> script = ''arabic'' \<or> script = ''hebrew''"
  by (simp add: isRtlScript_def)

lemma detectScript_cases:
  "detectScript text = ''cjk'' \<or> detectScript text = ''arabic'' \<or>
   detectScript text = ''hebrew'' \<or> detectScript text = ''latin''"
  by (simp add: detectScript_def)

text \<open>
  Claim C5. \<open>detectScript\<close> tests for a code unit in the CJK ranges
  (U+3000 to U+9FFF, U+F900 to U+FAFF), then the Arabic range (U+0600 to U+06FF),
  then the Hebrew range (U+0590 to U+05FF), and answers \<open>latin\<close> when none is
  present; the first class found wins. A text with one CJK code unit anywhere is
  \<open>cjk\<close>, whatever else it holds.
\<close>

theorem script_priority:
  "(list_ex isCjkUnit text \<longrightarrow> detectScript text = ''cjk'') \<and>
   (\<not> list_ex isCjkUnit text \<and> list_ex isArabicUnit text \<longrightarrow> detectScript text = ''arabic'') \<and>
   (\<not> list_ex isCjkUnit text \<and> \<not> list_ex isArabicUnit text \<and> list_ex isHebrewUnit text \<longrightarrow>
      detectScript text = ''hebrew'') \<and>
   (\<not> list_ex isCjkUnit text \<and> \<not> list_ex isArabicUnit text \<and> \<not> list_ex isHebrewUnit text \<longrightarrow>
      detectScript text = ''latin'') \<and>
   ((0x3000 \<le> c \<and> c \<le> 0x9fff) \<or> (0xf900 \<le> c \<and> c \<le> 0xfaff) \<longrightarrow>
      detectScript (before @ c # after) = ''cjk'') \<and>
   (\<not> list_ex isCjkUnit (before @ after) \<and> 0x0600 \<le> c \<and> c \<le> 0x06FF \<longrightarrow>
      detectScript (before @ c # after) = ''arabic'') \<and>
   (\<not> list_ex isCjkUnit (before @ after) \<and> \<not> list_ex isArabicUnit (before @ after) \<and>
    0x0590 \<le> c \<and> c \<le> 0x05FF \<longrightarrow>
      detectScript (before @ c # after) = ''hebrew'')"
proof -
  have cjk: "detectScript (before @ c # after) = ''cjk''"
    if "(0x3000 \<le> c \<and> c \<le> 0x9fff) \<or> (0xf900 \<le> c \<and> c \<le> 0xfaff)"
  proof -
    from that have "isCjkUnit c" by (simp add: isCjkUnit_def)
    then have "list_ex isCjkUnit (before @ c # after)" by (simp add: list_ex_iff)
    then show ?thesis by (simp add: detectScript_def)
  qed
  have arabic: "detectScript (before @ c # after) = ''arabic''"
    if "\<not> list_ex isCjkUnit (before @ after) \<and> 0x0600 \<le> c \<and> c \<le> 0x06FF"
  proof -
    from that have a: "isArabicUnit c" by (simp add: isArabicUnit_def)
    from that have "c < 0x3000" by (simp add: word_le_nat_alt word_less_nat_alt)
    then have "\<not> isCjkUnit c" by (auto simp: isCjkUnit_def word_le_nat_alt word_less_nat_alt)
    with that have "\<not> list_ex isCjkUnit (before @ c # after)" by (auto simp: list_ex_iff)
    moreover from a have "list_ex isArabicUnit (before @ c # after)" by (simp add: list_ex_iff)
    ultimately show ?thesis by (simp add: detectScript_def)
  qed
  have hebrew: "detectScript (before @ c # after) = ''hebrew''"
    if "\<not> list_ex isCjkUnit (before @ after) \<and> \<not> list_ex isArabicUnit (before @ after) \<and>
        0x0590 \<le> c \<and> c \<le> 0x05FF"
  proof -
    from that have h: "isHebrewUnit c" by (simp add: isHebrewUnit_def)
    from that have lt: "c < 0x0600" by (simp add: word_le_nat_alt word_less_nat_alt)
    then have "\<not> isCjkUnit c" by (auto simp: isCjkUnit_def word_le_nat_alt word_less_nat_alt)
    with that have 1: "\<not> list_ex isCjkUnit (before @ c # after)" by (auto simp: list_ex_iff)
    from lt have "\<not> isArabicUnit c" by (auto simp: isArabicUnit_def word_le_nat_alt word_less_nat_alt)
    with that have 2: "\<not> list_ex isArabicUnit (before @ c # after)" by (auto simp: list_ex_iff)
    from h have "list_ex isHebrewUnit (before @ c # after)" by (simp add: list_ex_iff)
    with 1 2 show ?thesis by (simp add: detectScript_def)
  qed
  show ?thesis
    using cjk arabic hebrew by (simp add: detectScript_def)
qed


theorem script_priority_witness:
  "detectScript [0x4e2d, 0x61, 0x0627] = ''cjk'' \<and>
   detectScript [0x61, 0x05d0, 0x0627] = ''arabic'' \<and>
   detectScript [0x61, 0x05d0] = ''hebrew'' \<and>
   detectScript [0x48, 0x69] = ''latin''"
proof -
  have "detectScript ([0x61] @ 0x4e2d # [0x0627]) = ''cjk''"
    using script_priority [of "[]" "0x4e2d" "[0x61]" "[0x0627]"] by simp
  moreover have "detectScript ([0x61, 0x05d0] @ 0x0627 # []) = ''arabic''"
    using script_priority [of "[]" "0x0627" "[0x61, 0x05d0]" "[]"]
    by (simp add: isCjkUnit_def)
  moreover have "detectScript ([0x61] @ 0x05d0 # []) = ''hebrew''"
    using script_priority [of "[]" "0x05d0" "[0x61]" "[]"]
    by (simp add: isCjkUnit_def isArabicUnit_def)
  moreover have "detectScript [0x48, 0x69] = ''latin''"
    using script_priority [of "[0x48, 0x69]" 0 "[]" "[]"]
    by (simp add: isCjkUnit_def isArabicUnit_def isHebrewUnit_def)
  moreover have "detectScript [0x4e2d, 0x61, 0x0627] = ''cjk''"
    using script_priority [of "[0x4e2d, 0x61, 0x0627]" 0 "[]" "[]"]
    by (simp add: isCjkUnit_def)
  ultimately show ?thesis by simp
qed

section \<open>The right-to-left marker\<close>

lemma backslashU_Cons: "backslashU ys \<Longrightarrow> backslashU (p # ys)"
  by (cases ys) simp_all

lemma backslashU_Cons_other:
  "x \<noteq> codeUnit backslash \<Longrightarrow> backslashU (x # ys) = backslashU ys"
  by (cases ys) simp_all

lemma backslashU_append_clean:
  "codeUnit backslash \<notin> set xs \<Longrightarrow> backslashU (xs @ ys) = backslashU ys"
proof (induction xs)
  case Nil
  then show ?case by simp
next
  case (Cons a xs)
  then have "a \<noteq> codeUnit backslash" by auto
  with Cons show ?case by (simp add: backslashU_Cons_other)
qed

lemma backslashU_prepend: "backslashU ys \<Longrightarrow> backslashU (ps @ ys)"
  by (induction ps) (simp_all add: backslashU_Cons)

lemma rtlMarker_unfold:
  "rtlMarker = codeUnit backslash # codeUnit (CHR ''u'') # ascii ''+F220''"
  by (simp add: rtlMarker_def ascii_def)

lemma sublist_rtlMarker_backslashU:
  assumes "sublist rtlMarker zs"
  shows "backslashU zs"
proof -
  from assms obtain ps ss where "zs = ps @ rtlMarker @ ss"
    by (auto simp: sublist_def)
  then have "zs = ps @ (codeUnit backslash # codeUnit (CHR ''u'') # (ascii ''+F220'' @ ss))"
    by (simp add: rtlMarker_unfold)
  then show ?thesis
    by (simp add: backslashU_prepend)
qed

lemma brace_not_in_rtlMarker: "codeUnit (CHR ''}'') \<notin> set rtlMarker"
  by (simp add: rtlMarker_unfold ascii_def codeUnit_eq_iff backslash_def)

lemma textEventHead_clean:
  assumes "backslash \<notin> set st" "backslash \<notin> set et"
    and "backslash \<notin> set (nts (vw / 2))" "backslash \<notin> set (nts y)"
  shows "\<not> backslashU (ascii (textEventHead nts st et vw y))"
  using assms
  by (simp add: textEventHead_def ascii_append ascii_Cons ascii_Nil backslashU_Cons_other
      backslashU_append_clean codeUnit_in_ascii codeUnit_eq_iff backslash_def)

lemma textEventHead_last:
  "ascii (textEventHead nts st et vw y) \<noteq> [] \<and>
   last (ascii (textEventHead nts st et vw y)) = codeUnit (CHR ''}'')"
  by (simp add: textEventHead_def ascii_append ascii_Cons ascii_Nil)


lemma digitChar_digit: "k < 10 \<Longrightarrow> digitChar k \<in> set ''0123456789''"
  unfolding digitChar_def by (rule nth_mem) simp

lemma showNat_digits: "set (showNat n) \<subseteq> set ''0123456789''"
proof (induction n rule: showNat.induct)
  case (1 n)
  show ?case
  proof (cases "n < 10")
    case True
    then have "showNat n = [digitChar n]" by (subst showNat.simps) simp
    with True show ?thesis using digitChar_digit [of n] by simp
  next
    case False
    then have "showNat n = showNat (n div 10) @ [digitChar (n mod 10)]"
      by (subst showNat.simps) simp
    moreover have "set (showNat (n div 10)) \<subseteq> set ''0123456789''"
      using "1.IH" False by simp
    moreover have "digitChar (n mod 10) \<in> set ''0123456789''"
      by (rule digitChar_digit) simp
    ultimately show ?thesis by simp
  qed
qed

lemma showNat_clean: "backslash \<notin> set (showNat n)"
proof
  assume "backslash \<in> set (showNat n)"
  with showNat_digits [of n] have "backslash \<in> set ''0123456789''" by blast
  then show False by (simp add: backslash_def)
qed

lemma showInt_clean: "backslash \<notin> set (showInt i)"
  using showNat_clean by (simp add: showInt_def backslash_def)

lemma padStart_clean: "backslash \<notin> set s \<Longrightarrow> backslash \<notin> set (padStart n (CHR ''0'') s)"
  by (auto simp: padStart_def backslash_def)

lemma toFixed2_clean: "backslash \<notin> set (toFixed2 x)"
proof -
  have "backslash \<notin> set (padStart 2 (CHR ''0'') (showNat k))" for k
    by (rule padStart_clean) (rule showNat_clean)
  then show ?thesis
    using showNat_clean by (simp add: toFixed2_def Let_def backslash_def)
qed

lemma formatAssTime_clean: "backslash \<notin> set (formatAssTime seconds)"
proof -
  have a: "backslash \<notin> set (padStart 2 (CHR ''0'') (showInt k))" for k
    by (rule padStart_clean) (rule showInt_clean)
  have b: "backslash \<notin> set (padStart 5 (CHR ''0'') (toFixed2 x))" for x
    by (rule padStart_clean) (rule toFixed2_clean)
  have c: "backslash \<noteq> CHR '':''" by (simp add: backslash_def)
  show ?thesis
    using a b c showInt_clean by (simp add: formatAssTime_def Let_def)
qed

lemma marker_after_head:
  assumes clean: "\<not> backslashU H" and ne: "H \<noteq> []" and brace: "last H = codeUnit (CHR ''}'')"
  shows "sublist rtlMarker (H @ T) \<longleftrightarrow> sublist rtlMarker T"
proof
  assume "sublist rtlMarker (H @ T)"
  then consider "sublist rtlMarker H" | "sublist rtlMarker T"
    | m1 m2 where "rtlMarker = m1 @ m2" "suffix m1 H" "prefix m2 T"
    by (auto simp: sublist_append)
  then show "sublist rtlMarker T"
  proof cases
    case 1
    then show ?thesis using clean sublist_rtlMarker_backslashU by blast
  next
    case 2
    then show ?thesis .
  next
    case 3
    show ?thesis
    proof (cases "m1 = []")
      case True
      with 3 have "prefix rtlMarker T" by simp
      then show ?thesis by (rule prefix_imp_sublist)
    next
      case False
      from 3(2) obtain zs where "H = zs @ m1" by (auto simp: suffix_def)
      with False have "last H = last m1" by simp
      moreover have "last m1 \<in> set m1" using False by simp
      moreover have "set m1 \<subseteq> set rtlMarker" unfolding 3(1) by simp
      ultimately have "codeUnit (CHR ''}'') \<in> set rtlMarker" using brace by auto
      then show ?thesis using brace_not_in_rtlMarker by simp
    qed
  qed
next
  assume "sublist rtlMarker T"
  then show "sublist rtlMarker (H @ T)" by (auto simp: sublist_append)
qed

lemma textEvent_marker:
  assumes "backslash \<notin> set st" "backslash \<notin> set et"
    and "backslash \<notin> set (nts (vw / 2))" "backslash \<notin> set (nts y)"
  shows "sublist rtlMarker (textEvent nts st et vw y text) \<longleftrightarrow>
         isRtlScript (detectScript text) \<or> sublist rtlMarker text"
proof (cases "isRtlScript (detectScript text)")
  case True
  then have "textEvent nts st et vw y text =
      ascii (textEventHead nts st et vw y) @ rtlMarker @ text"
    by (simp add: textEvent_def currentRtlMarker_def)
  then show ?thesis using True by simp
next
  case False
  then have "textEvent nts st et vw y text = ascii (textEventHead nts st et vw y) @ text"
    by (simp add: textEvent_def currentRtlMarker_def)
  then show ?thesis
    using False textEventHead_clean [OF assms] textEventHead_last [of nts st et vw y]
    by (simp add: marker_after_head)
qed


lemma showInt_floor_clean: "\<forall>x::real. backslash \<notin> set (showInt \<lfloor>x\<rfloor>)"
  by (simp add: showInt_clean)

text \<open>
  A cue text may itself spell the characters of the marker: the text \<open>\u+F220\<close> is
  \<open>latin\<close>, the builder puts no marker before it, and the characters are in the event
  with the text.
\<close>

lemma marker_spelled_in_text:
  "detectScript (ascii (backslash # ''u+F220'')) = ''latin'' \<and>
   \<not> isRtlScript (detectScript (ascii (backslash # ''u+F220''))) \<and>
   sublist rtlMarker
     (textEvent (\<lambda>x. showInt \<lfloor>x\<rfloor>) ''0:00:00.00'' ''0:00:01.00'' 1920 1020
        (ascii (backslash # ''u+F220'')))"
proof -
  have d: "detectScript (ascii (backslash # ''u+F220'')) = ''latin''"
    by (simp add: detectScript_def ascii_def codeUnit_def backslash_def
        isCjkUnit_def isArabicUnit_def isHebrewUnit_def)
  then have r: "\<not> isRtlScript (detectScript (ascii (backslash # ''u+F220'')))"
    by (simp add: isRtlScript_def)
  have "sublist rtlMarker
     (textEvent (\<lambda>x. showInt \<lfloor>x\<rfloor>) ''0:00:00.00'' ''0:00:01.00'' 1920 1020
        (ascii (backslash # ''u+F220'')))"
    unfolding textEvent_def Let_def currentRtlMarker_def rtlMarker_def
    by (simp only: r if_False append_Nil sublist_append_leftI)
  with d r show ?thesis by simp
qed

text \<open>
  Claim C6. \<open>isRtlScript\<close> holds exactly for \<open>arabic\<close> and \<open>hebrew\<close>. The text
  event of every cue is the head, then the marker when the script detected on the
  cue's own text is \<open>arabic\<close> or \<open>hebrew\<close> and nothing otherwise, then the text; the
  script of the whole document does not enter. The head, numbers being written
  without a backslash, never holds the marker's characters, so they occur in the
  event exactly when the builder put the marker there or they are part of the cue's
  own text.
\<close>

theorem rtl_marker:
  "isRtlScript script = (script = ''arabic'' \<or> script = ''hebrew'') \<and>
   textEvent nts st et vw y text =
     ascii (textEventHead nts st et vw y) @
     (if detectScript text = ''arabic'' \<or> detectScript text = ''hebrew'' then rtlMarker else []) @
     text \<and>
   (\<forall>evs idx. createRoundedAss nts w options vd m subtitles = Inr evs \<and> idx < length subtitles \<longrightarrow>
      ev_text (evs ! idx) =
        textEvent nts (formatAssTime (sub_start (subtitles ! idx)))
          (formatAssTime (sub_end (subtitles ! idx)))
          (case vd of None \<Rightarrow> 1920 | Some d \<Rightarrow> fst d) (ev_yPos (evs ! idx))
          (sub_text (subtitles ! idx))) \<and>
   ((\<forall>x. backslash \<notin> set (nts x)) \<longrightarrow>
    (\<forall>evs idx. createRoundedAss nts w options vd m subtitles = Inr evs \<and> idx < length subtitles \<longrightarrow>
       sublist rtlMarker (ev_text (evs ! idx)) =
         (detectScript (sub_text (subtitles ! idx)) = ''arabic'' \<or>
          detectScript (sub_text (subtitles ! idx)) = ''hebrew'' \<or>
          sublist rtlMarker (sub_text (subtitles ! idx)))))"
proof -
  have shape: "textEvent nts st et vw y text =
     ascii (textEventHead nts st et vw y) @
     (if detectScript text = ''arabic'' \<or> detectScript text = ''hebrew'' then rtlMarker else []) @
     text"
    by (simp add: textEvent_def currentRtlMarker_def isRtlScript_iff)
  have contains: "sublist rtlMarker (ev_text (evs ! idx)) =
         (detectScript (sub_text (subtitles ! idx)) = ''arabic'' \<or>
          detectScript (sub_text (subtitles ! idx)) = ''hebrew'' \<or>
          sublist rtlMarker (sub_text (subtitles ! idx)))"
    if nts: "\<forall>x. backslash \<notin> set (nts x)"
      and evs: "createRoundedAss nts w options vd m subtitles = Inr evs" "idx < length subtitles"
    for evs idx
    unfolding event_text [OF evs]
    using nts
    by (simp add: textEvent_marker formatAssTime_clean isRtlScript_iff)
  show ?thesis
    using shape contains event_text [of nts w options vd m subtitles] isRtlScript_iff [of script]
    by blast
qed

theorem rtl_marker_witness:
  "\<exists>evs. createRoundedAss (\<lambda>x. showInt \<lfloor>x\<rfloor>) False noOptions None None
            [\<lparr>sub_index = 1, sub_start = 0, sub_end = 1, sub_text = ascii ''Hi''\<rparr>,
             \<lparr>sub_index = 2, sub_start = 2, sub_end = 3,
               sub_text = [0x05E9, 0x05DC, 0x05D5, 0x05DD]\<rparr>] = Inr evs \<and>
         detectScript (joinTexts [ascii ''Hi'', [0x05E9, 0x05DC, 0x05D5, 0x05DD]]) = ''hebrew'' \<and>
         \<not> sublist rtlMarker (ev_text (evs ! 0)) \<and>
         sublist rtlMarker (ev_text (evs ! 1))"
proof -
  let ?subs = "[\<lparr>sub_index = 1, sub_start = 0, sub_end = 1, sub_text = ascii ''Hi''\<rparr>,
             \<lparr>sub_index = 2, sub_start = 2, sub_end = 3,
               sub_text = [0x05E9, 0x05DC, 0x05D5, 0x05DD]\<rparr>]"
  let ?nts = "\<lambda>x::real. showInt \<lfloor>x\<rfloor>"
  obtain evs where evs: "createRoundedAss ?nts False noOptions None None ?subs = Inr evs"
    using createRoundedAss_returns [of ?subs ?nts False noOptions None None] by auto
  have clean: "\<forall>x. backslash \<notin> set (?nts x)"
    by (rule showInt_floor_clean)
  have latin: "detectScript (ascii ''Hi'') = ''latin''"
    by (simp add: detectScript_def ascii_def codeUnit_def
        isCjkUnit_def isArabicUnit_def isHebrewUnit_def)
  have hebrew: "detectScript [0x05E9, 0x05DC, 0x05D5, 0x05DD] = ''hebrew''"
    by (simp add: detectScript_def isCjkUnit_def isArabicUnit_def isHebrewUnit_def)
  have doc: "detectScript (joinTexts [ascii ''Hi'', [0x05E9, 0x05DC, 0x05D5, 0x05DD]]) = ''hebrew''"
    by (simp add: detectScript_def ascii_def codeUnit_def
        isCjkUnit_def isArabicUnit_def isHebrewUnit_def)
  have short: "\<not> sublist rtlMarker (ascii ''Hi'')"
    using sublist_length_le [of rtlMarker "ascii ''Hi''"]
    by (auto simp: rtlMarker_def ascii_def)
  from rtl_marker [of "''latin''" ?nts "[]" "[]" 0 0 "[]" False noOptions None None ?subs] clean
  have all: "\<forall>evs idx. createRoundedAss ?nts False noOptions None None ?subs = Inr evs \<and>
        idx < length ?subs \<longrightarrow>
       sublist rtlMarker (ev_text (evs ! idx)) =
         (detectScript (sub_text (?subs ! idx)) = ''arabic'' \<or>
          detectScript (sub_text (?subs ! idx)) = ''hebrew'' \<or>
          sublist rtlMarker (sub_text (?subs ! idx)))"
    by blast
  from all [rule_format, of evs 0] evs latin short
  have a: "\<not> sublist rtlMarker (ev_text (evs ! 0))" by simp
  from all [rule_format, of evs 1] evs hebrew
  have b: "sublist rtlMarker (ev_text (evs ! 1))" by simp
  from evs doc a b show ?thesis by blast
qed

section \<open>Bottom margin\<close>

lemma determineBottomMargin_auto:
  "determineBottomMargin None vh = max 60 (min (of_int \<lfloor>vh * 0.05\<rfloor>) (of_int \<lfloor>vh * 0.1\<rfloor>))"
  by (simp add: determineBottomMargin_def Let_def)

lemma determineBottomMargin_small:
  assumes "vh < 1200"
  shows "determineBottomMargin None vh = 60"
proof -
  have "\<lfloor>vh * 0.05\<rfloor> < 60" using assms by (simp add: floor_less_iff)
  then have "(of_int \<lfloor>vh * 0.05\<rfloor> :: real) \<le> 60" by linarith
  then have "min (of_int \<lfloor>vh * 0.05\<rfloor>) (of_int \<lfloor>vh * 0.1\<rfloor>) \<le> (60::real)"
    by (rule min.coboundedI1)
  then show ?thesis
    unfolding determineBottomMargin_auto by (rule max.absorb1)
qed

lemma determineBottomMargin_large:
  assumes "1200 \<le> vh"
  shows "determineBottomMargin None vh = of_int \<lfloor>vh * 0.05\<rfloor>"
proof -
  have a: "60 \<le> \<lfloor>vh * 0.05\<rfloor>" using assms by (simp add: le_floor_iff)
  have "vh * 0.05 \<le> vh * 0.1" using assms by simp
  then have b: "\<lfloor>vh * 0.05\<rfloor> \<le> \<lfloor>vh * 0.1\<rfloor>" by (rule floor_mono)
  from a have a': "(60::real) \<le> of_int \<lfloor>vh * 0.05\<rfloor>" by linarith
  from b have b': "(of_int \<lfloor>vh * 0.05\<rfloor> :: real) \<le> of_int \<lfloor>vh * 0.1\<rfloor>" by linarith
  show ?thesis
    unfolding determineBottomMargin_auto using a' b' by (simp add: max_def min_def)
qed

lemma determineBottomMargin_interval:
  assumes "600 \<le> vh"
  shows "60 \<le> determineBottomMargin None vh \<and>
         determineBottomMargin None vh \<le> of_int \<lfloor>vh * 0.1\<rfloor>"
proof -
  have "60 \<le> \<lfloor>vh * 0.1\<rfloor>" using assms by (simp add: le_floor_iff)
  then have "(60::real) \<le> of_int \<lfloor>vh * 0.1\<rfloor>" by linarith
  then show ?thesis
    unfolding determineBottomMargin_auto by (simp add: max_def min_def)
qed

lemma clamp_orders_agree:
  fixes a b lo :: real
  assumes "a \<le> b" "lo \<le> b"
  shows "max lo (min a b) = min b (max lo a)"
  using assms by (auto simp: max_def min_def)

lemma determineBottomMargin_clamp:
  assumes "600 \<le> vh"
  shows "determineBottomMargin None vh =
           min (of_int \<lfloor>vh * 0.1\<rfloor>) (max 60 (of_int \<lfloor>vh * 0.05\<rfloor>))"
proof -
  have "60 \<le> \<lfloor>vh * 0.1\<rfloor>" using assms by (simp add: le_floor_iff)
  then have hi: "(60::real) \<le> of_int \<lfloor>vh * 0.1\<rfloor>" by linarith
  have "vh * 0.05 \<le> vh * 0.1" using assms by simp
  then have "\<lfloor>vh * 0.05\<rfloor> \<le> \<lfloor>vh * 0.1\<rfloor>" by (rule floor_mono)
  then have le: "(of_int \<lfloor>vh * 0.05\<rfloor> :: real) \<le> of_int \<lfloor>vh * 0.1\<rfloor>" by linarith
  show ?thesis
    unfolding determineBottomMargin_auto by (rule clamp_orders_agree [OF le hi])
qed

lemma determineBottomMargin_low:
  assumes "vh < 600"
  shows "determineBottomMargin None vh = 60 \<and> of_int \<lfloor>vh * 0.1\<rfloor> < (60::real)"
proof -
  have "\<lfloor>vh * 0.1\<rfloor> < 60" using assms by (simp add: floor_less_iff)
  then have "of_int \<lfloor>vh * 0.1\<rfloor> < (60::real)" by linarith
  moreover have "determineBottomMargin None vh = 60"
    using assms by (intro determineBottomMargin_small) simp
  ultimately show ?thesis by simp
qed

text \<open>
  The margin for every height. A specified margin is used as it is. Otherwise the
  margin is \<open>max(60, min(floor(h * 0.05), floor(h * 0.1)))\<close>: 60 below a height of
  1200 and \<open>floor(h * 0.05)\<close> from there on. From a height of 600 on this is
  \<open>floor(h * 0.05)\<close> clamped to the interval \<open>[60, floor(h * 0.1)]\<close>, the two ways of
  clamping, \<open>max(60, min(x, hi))\<close> and \<open>min(hi, max(60, x))\<close>, agreeing there; below
  600 the margin, 60, is above \<open>floor(h * 0.1)\<close>. Every event of a document is placed
  with the one margin computed from the options and the video height.
\<close>

theorem bottom_margin:
  "determineBottomMargin (Some m) vh = m \<and>
   determineBottomMargin None vh =
     max 60 (min (of_int \<lfloor>vh * 0.05\<rfloor>) (of_int \<lfloor>vh * 0.1\<rfloor>)) \<and>
   60 \<le> determineBottomMargin None vh \<and>
   (vh < 1200 \<longrightarrow> determineBottomMargin None vh = 60) \<and>
   (1200 \<le> vh \<longrightarrow> determineBottomMargin None vh = of_int \<lfloor>vh * 0.05\<rfloor>) \<and>
   (600 \<le> vh \<longrightarrow>
      determineBottomMargin None vh =
        min (of_int \<lfloor>vh * 0.1\<rfloor>) (max 60 (of_int \<lfloor>vh * 0.05\<rfloor>)) \<and>
      60 \<le> determineBottomMargin None vh \<and>
      determineBottomMargin None vh \<le> of_int \<lfloor>vh * 0.1\<rfloor>) \<and>
   (vh < 600 \<longrightarrow>
      determineBottomMargin None vh = 60 \<and> of_int \<lfloor>vh * 0.1\<rfloor> < determineBottomMargin None vh) \<and>
   (\<forall>evs idx. createRoundedAss nts w options vd ms subtitles = Inr evs \<and> idx < length subtitles \<longrightarrow>
      ev_yPos (evs ! idx) =
        (case vd of None \<Rightarrow> 1080 | Some d \<Rightarrow> snd d) -
        determineBottomMargin (opt_marginBottom options)
          (case vd of None \<Rightarrow> 1080 | Some d \<Rightarrow> snd d))"
proof (intro conjI allI impI)
  show "determineBottomMargin (Some m) vh = m"
    by (simp add: determineBottomMargin_def)
  show "determineBottomMargin None vh =
        max 60 (min (of_int \<lfloor>vh * 0.05\<rfloor>) (of_int \<lfloor>vh * 0.1\<rfloor>))"
    by (rule determineBottomMargin_auto)
  show "60 \<le> determineBottomMargin None vh"
    by (simp add: determineBottomMargin_auto)
  show "determineBottomMargin None vh = 60" if "vh < 1200"
    using that by (rule determineBottomMargin_small)
  show "determineBottomMargin None vh = of_int \<lfloor>vh * 0.05\<rfloor>" if "1200 \<le> vh"
    using that by (rule determineBottomMargin_large)
  show "determineBottomMargin None vh =
        min (of_int \<lfloor>vh * 0.1\<rfloor>) (max 60 (of_int \<lfloor>vh * 0.05\<rfloor>))"
    if "600 \<le> vh"
    using that by (rule determineBottomMargin_clamp)
  show "60 \<le> determineBottomMargin None vh" if "600 \<le> vh"
    using that determineBottomMargin_interval by blast
  show "determineBottomMargin None vh \<le> of_int \<lfloor>vh * 0.1\<rfloor>" if "600 \<le> vh"
    using that determineBottomMargin_interval by blast
  show "determineBottomMargin None vh = 60" if "vh < 600"
    using determineBottomMargin_low [OF that] by blast
  show "of_int \<lfloor>vh * 0.1\<rfloor> < determineBottomMargin None vh" if "vh < 600"
    using determineBottomMargin_low [OF that] by linarith
  show "ev_yPos (evs ! idx) =
        (case vd of None \<Rightarrow> 1080 | Some d \<Rightarrow> snd d) -
        determineBottomMargin (opt_marginBottom options)
          (case vd of None \<Rightarrow> 1080 | Some d \<Rightarrow> snd d)"
    if "createRoundedAss nts w options vd ms subtitles = Inr evs \<and> idx < length subtitles"
    for evs idx
    using that event_yPos by blast
qed

theorem bottom_margin_witness:
  "(600::real) \<le> 1080 \<and> determineBottomMargin None 1080 = 60 \<and>
   determineBottomMargin None 1080 \<le> of_int \<lfloor>(1080::real) * 0.1\<rfloor> \<and>
   (600::real) \<le> 2160 \<and> determineBottomMargin None 2160 = 108 \<and>
   (\<exists>evs. createRoundedAss (\<lambda>x. showInt \<lfloor>x\<rfloor>) False noOptions (Some (3840, 2160)) None
            [\<lparr>sub_index = 1, sub_start = 0, sub_end = 1, sub_text = ascii ''Hi''\<rparr>,
             \<lparr>sub_index = 2, sub_start = 2, sub_end = 3, sub_text = ascii ''Bye''\<rparr>] = Inr evs \<and>
          ev_yPos (evs ! 0) = 2052 \<and> ev_yPos (evs ! 1) = 2052)"
proof -
  let ?subs = "[\<lparr>sub_index = 1, sub_start = 0, sub_end = 1, sub_text = ascii ''Hi''\<rparr>,
             \<lparr>sub_index = 2, sub_start = 2, sub_end = 3, sub_text = ascii ''Bye''\<rparr>]"
  let ?nts = "\<lambda>x::real. showInt \<lfloor>x\<rfloor>"
  obtain evs where evs: "createRoundedAss ?nts False noOptions (Some (3840, 2160)) None ?subs = Inr evs"
    using createRoundedAss_returns [of ?subs ?nts False noOptions "Some (3840, 2160)" None] by auto
  note s = bottom_margin [of 0 1080 ?nts False noOptions "Some (3840, 2160)" None ?subs]
  note l = bottom_margin [of 0 2160 ?nts False noOptions "Some (3840, 2160)" None ?subs]
  have h: "(600::real) \<le> 1080" "(600::real) \<le> 2160" by simp_all
  from s h(1) have a1: "determineBottomMargin None 1080 =
        min (of_int \<lfloor>(1080::real) * 0.1\<rfloor>) (max 60 (of_int \<lfloor>(1080::real) * 0.05\<rfloor>))"
    and a2: "determineBottomMargin None 1080 \<le> of_int \<lfloor>(1080::real) * 0.1\<rfloor>"
    by blast+
  from a1 have a: "determineBottomMargin None 1080 = 60" by simp
  from l h(2) have "determineBottomMargin None 2160 =
        min (of_int \<lfloor>(2160::real) * 0.1\<rfloor>) (max 60 (of_int \<lfloor>(2160::real) * 0.05\<rfloor>))"
    by blast
  then have b: "determineBottomMargin None 2160 = 108" by simp
  from l have c: "\<forall>evs idx. createRoundedAss ?nts False noOptions (Some (3840, 2160)) None ?subs = Inr evs \<and>
        idx < length ?subs \<longrightarrow>
      ev_yPos (evs ! idx) =
        (case Some (3840 :: real, 2160 :: real) of None \<Rightarrow> 1080 | Some d \<Rightarrow> snd d) -
        determineBottomMargin (opt_marginBottom noOptions)
          (case Some (3840 :: real, 2160 :: real) of None \<Rightarrow> 1080 | Some d \<Rightarrow> snd d)"
    by (elim conjE)
  have "ev_yPos (evs ! 0) = 2052" "ev_yPos (evs ! 1) = 2052"
    using c [rule_format, of evs 0] c [rule_format, of evs 1] evs b
    by (simp_all add: noOptions_def)
  then have "\<exists>evs. createRoundedAss ?nts False noOptions (Some (3840, 2160)) None ?subs = Inr evs \<and>
          ev_yPos (evs ! 0) = 2052 \<and> ev_yPos (evs ! 1) = 2052"
    using evs by blast
  with a a2 b show ?thesis by simp
qed

text \<open>
  Claim C7. A specified margin is used as it is, and the margin is computed once for
  the document (\<open>bottom_margin\<close>). Without a specified margin the code returns
  \<open>max(60, min(floor(h * 0.05), floor(h * 0.1)))\<close>: the lower bound 60 is applied last
  and wins over the upper bound \<open>floor(h * 0.1)\<close>, which the claim and the comment in
  the code (\<open>not more than 10% of video height\<close>) give. On a canvas lower than 600
  the margin is above the upper bound: on a video of 854 by 480 the margin is 60,
  with \<open>floor(480 * 0.1) = 48\<close>, and the events are placed at 420.
\<close>

theorem bottom_margin_exceeds_tenth:
  "determineBottomMargin None 480 = 60 \<and>
   (of_int \<lfloor>(480::real) * 0.1\<rfloor> :: real) = 48 \<and>
   \<not> determineBottomMargin None 480 \<le> of_int \<lfloor>(480::real) * 0.1\<rfloor> \<and>
   (\<exists>evs. createRoundedAss (\<lambda>x. showInt \<lfloor>x\<rfloor>) False noOptions (Some (854, 480)) None
            [\<lparr>sub_index = 1, sub_start = 0, sub_end = 1, sub_text = ascii ''Hi''\<rparr>] = Inr evs \<and>
          ev_yPos (evs ! 0) = 420)"
proof -
  let ?subs = "[\<lparr>sub_index = 1, sub_start = 0, sub_end = 1, sub_text = ascii ''Hi''\<rparr>]"
  let ?nts = "\<lambda>x::real. showInt \<lfloor>x\<rfloor>"
  have m: "determineBottomMargin None 480 = 60"
    by (simp add: determineBottomMargin_def Let_def)
  have t: "(of_int \<lfloor>(480::real) * 0.1\<rfloor> :: real) = 48"
    by simp
  obtain evs where evs: "createRoundedAss ?nts False noOptions (Some (854, 480)) None ?subs = Inr evs"
    using createRoundedAss_returns [of ?subs ?nts False noOptions "Some (854, 480)" None] by auto
  have "ev_yPos (evs ! 0) = 420"
    using event_yPos [OF evs, of 0] m by (simp add: noOptions_def)
  with evs have "\<exists>evs. createRoundedAss ?nts False noOptions (Some (854, 480)) None ?subs = Inr evs \<and>
          ev_yPos (evs ! 0) = 420"
    by blast
  with m t show ?thesis by simp
qed

section \<open>Estimated text dimensions\<close>

lemma replaceBreaks_length: "length (replaceBreaks s) + countBreaks s = length s"
  by (induction s rule: replaceBreaks.induct) auto

lemma closeTag_shorter: "closeTag cs = Some rest \<Longrightarrow> length rest < length cs"
  by (induction cs) (auto split: if_splits)

lemma removeTags_no_brace: "codeUnit (CHR ''{'') \<notin> set s \<Longrightarrow> removeTags s = s"
  by (induction s) auto

lemma closeTag_tag:
  "codeUnit (CHR ''}'') \<notin> set tag \<Longrightarrow> \<not> list_ex isLineTerminator tag \<Longrightarrow>
   closeTag (tag @ codeUnit (CHR ''}'') # rest) = Some rest"
  by (induction tag) auto

lemma removeTags_tag:
  assumes "codeUnit (CHR ''{'') \<notin> set before" "codeUnit (CHR ''}'') \<notin> set tag"
    "\<not> list_ex isLineTerminator tag"
  shows "removeTags (before @ codeUnit (CHR ''{'') # tag @ codeUnit (CHR ''}'') # rest) =
         before @ removeTags rest"
  using assms by (induction before) (auto simp: closeTag_tag)

lemma countBreaks_no_backslash: "codeUnit backslash \<notin> set s \<Longrightarrow> countBreaks s = 0"
  by (induction s rule: countBreaks.induct) auto

lemma replaceBreaks_no_backslash: "codeUnit backslash \<notin> set s \<Longrightarrow> replaceBreaks s = s"
  by (induction s rule: replaceBreaks.induct) auto


lemma countBreaks_append_break:
  "countBreaks (a @ codeUnit backslash # codeUnit (CHR ''N'') # b) =
   countBreaks a + 1 + countBreaks b"
  by (induction a rule: countBreaks.induct) (simp_all add: codeUnit_eq_iff backslash_def)

text \<open>
  Claim C8. The estimator returns the width
  \<open>min(charCount * fontSize * 0.6, videoWidth * 0.9)\<close>, where \<open>charCount\<close> is the
  length of the text after the tag spans are removed and every line-break escape
  \<open>\N\<close> is replaced by a space, and the height \<open>fontSize * 1.2 * lineCount\<close>, where
  \<open>lineCount\<close> is the number of escapes \<open>\N\<close> in the text plus 1. About the three
  text functions: replacing shortens the text by one character for each escape;
  an escape between two texts counts once more than the two texts; a text without
  a backslash has no escape and is left unchanged; a text without \<open>{\<close> has no tag;
  a first span from \<open>{\<close> to the next \<open>}\<close> on the same line is removed.
\<close>

theorem text_dimensions:
  "dim_width (calculateTextDimensions text fontName fontSize videoWidth) =
     min (of_nat (length (replaceBreaks (removeTags text))) * fontSize * 0.6) (videoWidth * 0.9) \<and>
   dim_height (calculateTextDimensions text fontName fontSize videoWidth) =
     fontSize * 1.2 * of_nat (countBreaks text + 1) \<and>
   length (replaceBreaks s) + countBreaks s = length s \<and>
   countBreaks (a @ codeUnit backslash # codeUnit (CHR ''N'') # b) =
     countBreaks a + 1 + countBreaks b \<and>
   (codeUnit backslash \<notin> set s \<longrightarrow> countBreaks s = 0 \<and> replaceBreaks s = s) \<and>
   (codeUnit (CHR ''{'') \<notin> set s \<longrightarrow> removeTags s = s) \<and>
   (codeUnit (CHR ''{'') \<notin> set before \<and> codeUnit (CHR ''}'') \<notin> set tag \<and>
    \<not> list_ex isLineTerminator tag \<longrightarrow>
      removeTags (before @ codeUnit (CHR ''{'') # tag @ codeUnit (CHR ''}'') # rest) =
        before @ removeTags rest)"
proof -
  have w: "dim_width (calculateTextDimensions text fontName fontSize videoWidth) =
     min (of_nat (length (replaceBreaks (removeTags text))) * fontSize * 0.6) (videoWidth * 0.9)"
    by (simp add: calculateTextDimensions_def Let_def mult.assoc)
  have h: "dim_height (calculateTextDimensions text fontName fontSize videoWidth) =
     fontSize * 1.2 * of_nat (countBreaks text + 1)"
    by (simp add: calculateTextDimensions_def Let_def)
  show ?thesis
    using w h replaceBreaks_length [of s] countBreaks_append_break [of a b]
      countBreaks_no_backslash [of s] replaceBreaks_no_backslash [of s]
      removeTags_no_brace [of s] removeTags_tag [of before tag rest]
    by blast
qed

theorem text_dimensions_witness:
  "calculateTextDimensions
     (ascii (''{'' @ backslash # ''i1}Hello'' @ backslash # ''NWorld'')) ''Arial'' 48 1920 =
     \<lparr>dim_width = 316.8, dim_height = 115.2\<rparr> \<and>
   removeTags (ascii (''{'' @ backslash # ''i1}Hello'' @ backslash # ''NWorld'')) =
     ascii (''Hello'' @ backslash # ''NWorld'') \<and>
   countBreaks (ascii (''{'' @ backslash # ''i1}Hello'' @ backslash # ''NWorld'')) = 1 \<and>
   length (replaceBreaks (ascii (''Hello'' @ backslash # ''NWorld''))) = 11"
proof -
  let ?t = "ascii (''{'' @ backslash # ''i1}Hello'' @ backslash # ''NWorld'')"
  let ?tag = "ascii (backslash # ''i1'')"
  let ?rest = "ascii (''Hello'' @ backslash # ''NWorld'')"
  have t: "?t = [] @ codeUnit (CHR ''{'') # ?tag @ codeUnit (CHR ''}'') # ?rest"
    by (simp add: ascii_def)
  have nb: "codeUnit (CHR ''{'') \<notin> set ?rest"
    by (simp add: ascii_def codeUnit_eq_iff backslash_def)
  have tg: "codeUnit (CHR ''}'') \<notin> set ?tag" "\<not> list_ex isLineTerminator ?tag"
    by (simp_all add: ascii_def codeUnit_eq_iff backslash_def isLineTerminator_def codeUnit_def)
  note td = text_dimensions [of ?t "''Arial''" 48 1920 ?rest
      "ascii (''{'' @ backslash # ''i1}Hello'')" "ascii ''World''" "[]" ?tag ?rest]
  have rt: "removeTags ?t = ?rest"
  proof -
    have e: "codeUnit (CHR ''{'') \<notin> set ([] :: jsstring)" by simp
    from td tg e have 1: "removeTags ([] @ codeUnit (CHR ''{'') # ?tag @ codeUnit (CHR ''}'') # ?rest) =
        [] @ removeTags ?rest"
      by blast
    from td nb have 2: "removeTags ?rest = ?rest" by blast
    have "removeTags ?t = [] @ removeTags ?rest"
      by (subst t) (rule 1)
    with 2 show ?thesis by simp
  qed
  have split: "?t = ascii (''{'' @ backslash # ''i1}Hello'') @
      codeUnit backslash # codeUnit (CHR ''N'') # ascii ''World''"
    by (simp add: ascii_def)
  have "countBreaks (ascii (''{'' @ backslash # ''i1}Hello'')) = 0" "countBreaks (ascii ''World'') = 0"
    by (simp_all add: ascii_def codeUnit_eq_iff backslash_def)
  with td have cb: "countBreaks ?t = 1"
    unfolding split by simp
  have ln: "length (replaceBreaks ?rest) = 11"
    by (simp add: ascii_def codeUnit_eq_iff backslash_def)
  from td have w: "dim_width (calculateTextDimensions ?t ''Arial'' 48 1920) =
      min (of_nat (length (replaceBreaks (removeTags ?t))) * 48 * 0.6) (1920 * 0.9)"
    and h: "dim_height (calculateTextDimensions ?t ''Arial'' 48 1920) =
      48 * 1.2 * of_nat (countBreaks ?t + 1)"
    by blast+
  have "dim_width (calculateTextDimensions ?t ''Arial'' 48 1920) = 316.8"
    unfolding w rt ln by simp
  moreover have "dim_height (calculateTextDimensions ?t ''Arial'' 48 1920) = 115.2"
    unfolding h cb by simp
  ultimately have "dim_width (calculateTextDimensions ?t ''Arial'' 48 1920) = 316.8"
    "dim_height (calculateTextDimensions ?t ''Arial'' 48 1920) = 115.2" .
  then have "calculateTextDimensions ?t ''Arial'' 48 1920 =
     \<lparr>dim_width = 316.8, dim_height = 115.2\<rparr>"
    by (cases "calculateTextDimensions ?t ''Arial'' 48 1920") simp
  with rt cb ln show ?thesis by blast
qed

section \<open>Background alpha\<close>

lemma bgAlpha_resolved:
  "cfg_bgAlpha (extendConfig options (resolveConfig options)) =
     (if opt_bgAlpha options \<noteq> None \<and> opt_bgAlpha options \<noteq> Some 0 then the (opt_bgAlpha options)
      else if opt_opacity options \<noteq> None \<and> opt_opacity options \<noteq> Some 0 then the (opt_opacity options)
      else 80)"
  by (auto simp: extendConfig_def resolveConfig_def orNum_def split: option.splits)

text \<open>
  Claim C10, amended. The background alpha of every event is \<open>options.bgAlpha\<close> when
  that is a non-zero number, else \<open>options.opacity\<close> when that is a non-zero number,
  else 80. It is never 0, and it is 80 when each of the two options is missing or 0.
\<close>

theorem background_alpha:
  "cfg_bgAlpha (extendConfig options (resolveConfig options)) =
     (if opt_bgAlpha options \<noteq> None \<and> opt_bgAlpha options \<noteq> Some 0 then the (opt_bgAlpha options)
      else if opt_opacity options \<noteq> None \<and> opt_opacity options \<noteq> Some 0 then the (opt_opacity options)
      else 80) \<and>
   cfg_bgAlpha (extendConfig options (resolveConfig options)) \<noteq> 0 \<and>
   ((opt_opacity options = None \<or> opt_opacity options = Some 0) \<and>
    (opt_bgAlpha options = None \<or> opt_bgAlpha options = Some 0) \<longrightarrow>
      cfg_bgAlpha (extendConfig options (resolveConfig options)) = 80) \<and>
   (\<forall>evs idx. createRoundedAss nts w options vd m subtitles = Inr evs \<and> idx < length subtitles \<longrightarrow>
      ev_bgAlpha (evs ! idx) = cfg_bgAlpha (extendConfig options (resolveConfig options)))"
proof -
  have "(opt_opacity options = None \<or> opt_opacity options = Some 0) \<and>
    (opt_bgAlpha options = None \<or> opt_bgAlpha options = Some 0) \<longrightarrow>
      cfg_bgAlpha (extendConfig options (resolveConfig options)) = 80"
    by (auto simp: bgAlpha_resolved)
  then show ?thesis
    using bgAlpha_resolved [of options] bgAlpha_nonzero [of options]
      event_bgAlpha [of nts w options vd m subtitles]
    by blast
qed

text \<open>
  The claim as stated fails when \<open>opacity\<close> is 0 and \<open>bgAlpha\<close> is a non-zero
  number: with \<open>{opacity: 0, bgAlpha: 128}\<close> the alpha is 128, not 80.
\<close>

theorem background_alpha_counterexample:
  "opt_opacity (noOptions\<lparr>opt_opacity := Some 0, opt_bgAlpha := Some 128\<rparr>) = Some 0 \<and>
   cfg_bgAlpha (extendConfig (noOptions\<lparr>opt_opacity := Some 0, opt_bgAlpha := Some 128\<rparr>)
       (resolveConfig (noOptions\<lparr>opt_opacity := Some 0, opt_bgAlpha := Some 128\<rparr>))) = 128 \<and>
   cfg_bgAlpha (extendConfig (noOptions\<lparr>opt_opacity := Some 0, opt_bgAlpha := Some 128\<rparr>)
       (resolveConfig (noOptions\<lparr>opt_opacity := Some 0, opt_bgAlpha := Some 128\<rparr>))) \<noteq> 80"
  by (simp add: extendConfig_def resolveConfig_def orNum_def noOptions_def)

theorem background_alpha_witness:
  "\<exists>evs. createRoundedAss (\<lambda>x. showInt \<lfloor>x\<rfloor>) False (noOptions\<lparr>opt_opacity := Some 0\<rparr>) None None
            [\<lparr>sub_index = 1, sub_start = 0, sub_end = 1, sub_text = ascii ''Hi''\<rparr>] = Inr evs \<and>
         ev_bgAlpha (evs ! 0) = 80"
proof -
  let ?o = "noOptions\<lparr>opt_opacity := Some 0\<rparr>"
  let ?subs = "[\<lparr>sub_index = 1, sub_start = 0, sub_end = 1, sub_text = ascii ''Hi''\<rparr>]"
  let ?nts = "\<lambda>x::real. showInt \<lfloor>x\<rfloor>"
  obtain evs where evs: "createRoundedAss ?nts False ?o None None ?subs = Inr evs"
    using createRoundedAss_returns [of ?subs ?nts False ?o None None] by auto
  have o: "opt_opacity ?o = Some 0" "opt_bgAlpha ?o = None"
    by (simp_all add: noOptions_def)
  from background_alpha [of ?o ?nts False None None ?subs] o evs
  have "ev_bgAlpha (evs ! 0) = 80" by simp
  with evs show ?thesis by blast
qed

end
